theory Spec2Isabelle
  imports Main
begin

section \<open>JavaScript and Node primitives used by the sources\<close>

text \<open>
  Strings are lists of characters. The primitives below follow ECMAScript and Node's
  \<^verbatim>\<open>path\<close> module on ASCII text: white space is the six ASCII white-space
  characters, and lower-casing maps \<^verbatim>\<open>A-Z\<close> to \<^verbatim>\<open>a-z\<close>.
\<close>

definition isSpace :: "char \<Rightarrow> bool" where
  "isSpace c = (c \<in> set [CHR 0x09, CHR 0x0A, CHR 0x0B, CHR 0x0C, CHR 0x0D, CHR 0x20])"

text \<open>\<^verbatim>\<open>String.prototype.trim\<close>.\<close>

definition trim :: "string \<Rightarrow> string" where
  "trim s = rev (dropWhile isSpace (rev (dropWhile isSpace s)))"

text \<open>\<^verbatim>\<open>hay.includes(needle)\<close>: the needle occurs at some offset of the haystack.\<close>

fun startsWith :: "string \<Rightarrow> string \<Rightarrow> bool" where
  "startsWith s [] = True"
| "startsWith [] (c # cs) = False"
| "startsWith (d # ds) (c # cs) = (d = c \<and> startsWith ds cs)"

fun includes_str :: "string \<Rightarrow> string \<Rightarrow> bool" where
  "includes_str [] needle = (needle = [])"
| "includes_str (c # cs) needle = (startsWith (c # cs) needle \<or> includes_str cs needle)"

text \<open>
  \<^verbatim>\<open>s.split(sep)\<close> for a non-empty separator string: the pieces between the
  non-overlapping occurrences of the separator, found from the left. The first argument
  collects, reversed, the piece being read.
\<close>

function split_from :: "string \<Rightarrow> string \<Rightarrow> string \<Rightarrow> string list" where
  "split_from cur sep s =
     (if s = [] then [rev cur]
      else if sep \<noteq> [] \<and> startsWith s sep then rev cur # split_from [] sep (drop (length sep) s)
      else split_from (hd s # cur) sep (tl s))"
  by pat_completeness auto
termination
  by (relation "measure (\<lambda>(cur, sep, s). length s)") auto

declare split_from.simps [simp del]

definition split :: "string \<Rightarrow> string \<Rightarrow> string list" where
  "split sep s = split_from [] sep s"

text \<open>
  \<^verbatim>\<open>s.split(/\s+/)\<close>: the pieces between the maximal runs of white space. The
  flag says that the previous character was white space.
\<close>

fun split_ws_from :: "bool \<Rightarrow> string \<Rightarrow> string \<Rightarrow> string list" where
  "split_ws_from inWs cur [] = [rev cur]"
| "split_ws_from inWs cur (c # cs) =
     (if isSpace c then (if inWs then split_ws_from True cur cs else rev cur # split_ws_from True [] cs)
      else split_ws_from False (c # cur) cs)"

definition split_ws :: "string \<Rightarrow> string list" where
  "split_ws s = split_ws_from False [] s"

text \<open>\<^verbatim>\<open>parts.join(' ')\<close>.\<close>

fun join_space :: "string list \<Rightarrow> string" where
  "join_space [] = []"
| "join_space [p] = p"
| "join_space (p # q # ps) = p @ CHR 0x20 # join_space (q # ps)"

text \<open>
  \<^verbatim>\<open>parseInt(s)\<close> without a radix: leading white space, an optional sign, an
  optional \<^verbatim>\<open>0x\<close> prefix, then the longest run of digits; \<^verbatim>\<open>NaN\<close>
  (here \<open>None\<close>) when there is no digit.
\<close>

definition digit_value :: "char \<Rightarrow> nat option" where
  "digit_value c =
     map_of [(CHR ''0'', 0), (CHR ''1'', 1), (CHR ''2'', 2), (CHR ''3'', 3), (CHR ''4'', 4),
             (CHR ''5'', 5), (CHR ''6'', 6), (CHR ''7'', 7), (CHR ''8'', 8), (CHR ''9'', 9),
             (CHR ''a'', 10), (CHR ''b'', 11), (CHR ''c'', 12), (CHR ''d'', 13), (CHR ''e'', 14),
             (CHR ''f'', 15), (CHR ''A'', 10), (CHR ''B'', 11), (CHR ''C'', 12), (CHR ''D'', 13),
             (CHR ''E'', 14), (CHR ''F'', 15)] c"

definition is_digit :: "nat \<Rightarrow> char \<Rightarrow> bool" where
  "is_digit radix c = (case digit_value c of None \<Rightarrow> False | Some v \<Rightarrow> v < radix)"

definition digits_value :: "nat \<Rightarrow> string \<Rightarrow> nat" where
  "digits_value radix ds = foldl (\<lambda>acc c. acc * radix + (case digit_value c of None \<Rightarrow> 0 | Some v \<Rightarrow> v)) 0 ds"

definition parseInt :: "string \<Rightarrow> int option" where
  "parseInt s =
     (let t = dropWhile isSpace s;
          neg = startsWith t ''-'';
          u = (if startsWith t ''-'' \<or> startsWith t ''+'' then tl t else t);
          hex = (startsWith u ''0x'' \<or> startsWith u ''0X'');
          radix = (if hex then 16 else 10);
          v = (if hex then drop 2 u else u);
          ds = takeWhile (is_digit radix) v
      in if ds = [] then None
         else Some ((if neg then - 1 else 1) * int (digits_value radix ds)))"

text \<open>\<^verbatim>\<open>n.toString(radix)\<close> for a non-negative integer and a radix from 2 to 36.\<close>

definition digit_char :: "nat \<Rightarrow> char" where
  "digit_char d = ''0123456789abcdefghijklmnopqrstuvwxyz'' ! d"

function toString_radix :: "nat \<Rightarrow> nat \<Rightarrow> string" where
  "toString_radix radix n =
     (if radix < 2 \<or> n < radix then [digit_char n]
      else toString_radix radix (n div radix) @ [digit_char (n mod radix)])"
  by pat_completeness auto
termination
  by (relation "measure (\<lambda>(radix, n). n)") auto

declare toString_radix.simps [simp del]

text \<open>\<^verbatim>\<open>String.prototype.toLowerCase\<close> on ASCII.\<close>

definition lower_char :: "char \<Rightarrow> char" where
  "lower_char c =
     (case map_of (zip ''ABCDEFGHIJKLMNOPQRSTUVWXYZ'' ''abcdefghijklmnopqrstuvwxyz'') c of
        None \<Rightarrow> c
      | Some d \<Rightarrow> d)"

definition toLowerCase :: "string \<Rightarrow> string" where
  "toLowerCase s = map lower_char s"

text \<open>
  \<^verbatim>\<open>path.basename(p)\<close>. Node skips the separators that end the path and returns
  what stands between the last separator before them and them. The POSIX variant knows the
  separator \<^verbatim>\<open>/\<close>; the Windows variant knows \<^verbatim>\<open>/\<close> and
  \<^verbatim>\<open>\\<close> and never looks at a leading drive letter with its colon.
\<close>

definition posix_basename :: "string \<Rightarrow> string" where
  "posix_basename p =
     rev (takeWhile (\<lambda>c. c \<noteq> CHR ''/'') (dropWhile (\<lambda>c. c = CHR ''/'') (rev p)))"

definition isPathSeparator :: "char \<Rightarrow> bool" where
  "isPathSeparator c = (c = CHR ''/'' \<or> c = CHR 0x5C)"

definition isWindowsDeviceRoot :: "char \<Rightarrow> bool" where
  "isWindowsDeviceRoot c =
     (c \<in> set ''ABCDEFGHIJKLMNOPQRSTUVWXYZ'' \<or> c \<in> set ''abcdefghijklmnopqrstuvwxyz'')"

definition win32_basename :: "string \<Rightarrow> string" where
  "win32_basename p =
     (let start = (if 2 \<le> length p \<and> isWindowsDeviceRoot (p ! 0) \<and> p ! 1 = CHR '':'' then 2 else 0)
      in rev (takeWhile (\<lambda>c. \<not> isPathSeparator c) (dropWhile isPathSeparator (rev (drop start p)))))"

text \<open>The \<^verbatim>\<open>path\<close> module is the Windows one exactly when the platform is \<^verbatim>\<open>win32\<close>.\<close>

definition basename :: "string \<Rightarrow> string \<Rightarrow> string" where
  "basename platform p = (if platform = ''win32'' then win32_basename p else posix_basename p)"

text \<open>
  \<^verbatim>\<open>s.replace(/\.[^/.]+$/, '')\<close>. The regular expression matches at an offset
  when a dot stands there and the rest of the string is one or more characters other than
  \<^verbatim>\<open>/\<close> and \<^verbatim>\<open>.\<close>; \<^verbatim>\<open>replace\<close> removes the leftmost match, which
  here reaches the end of the string, so what is left is the text before the match.
\<close>

definition ext_matches :: "string \<Rightarrow> bool" where
  "ext_matches s =
     (case s of
        [] \<Rightarrow> False
      | c # cs \<Rightarrow> c = CHR ''.'' \<and> cs \<noteq> [] \<and> list_all (\<lambda>d. d \<noteq> CHR ''/'' \<and> d \<noteq> CHR ''.'') cs)"

fun removeExt_from :: "string \<Rightarrow> string \<Rightarrow> string" where
  "removeExt_from cur [] = rev cur"
| "removeExt_from cur (c # cs) =
     (if ext_matches (c # cs) then rev cur else removeExt_from (c # cur) cs)"

definition removeExt :: "string \<Rightarrow> string" where
  "removeExt s = removeExt_from [] s"


section \<open>Data model and the state of the main process\<close>

datatype LogLevel = DEBUG | INFO | WARN | ERROR

text \<open>One call of \<^verbatim>\<open>Logging.instance().log\<close>: the message, the level and the third argument as given.\<close>

type_synonym log_entry = "string \<times> LogLevel option \<times> bool"

record EnrolledProgram =
  id' :: string
  name :: string
  path :: string
  enrolledAt :: string
  lastSeen :: "string option"

record RunningProcess =
  pid :: "int option"
  proc_name :: string
  command :: string

text \<open>
  The file system as the registry sees it. Of a file only what
  \<^verbatim>\<open>enrolledProgramsSchema.parse(JSON.parse(data))\<close> makes of it is kept: the parsed
  programs, or the error that reading or parsing raises.
\<close>

datatype file_content = Programs "EnrolledProgram list" | Unparsable string

datatype node = File file_content | Directory

text \<open>The argument of \<^verbatim>\<open>wakatime.sendHeartbeat\<close> in polling mode (the two icon callbacks of the window info left out).\<close>

record AppData =
  app_id :: string
  app_name :: string
  app_path :: string
  icon :: "string option"
  version :: "string option"
  bundleId :: "string option"
  isBrowser :: bool
  isDefaultEnabled :: bool
  isElectronApp :: bool
  execName :: string

record Position =
  pos_x :: int
  pos_y :: int
  width :: int
  height :: int
  isFullScreen :: bool

record ProcessInfo =
  info_name :: string
  info_path :: string
  processId :: nat

record WindowInfo =
  win_id :: nat
  os :: string
  title :: string
  position :: Position
  usage_memory :: nat
  usage_cpu :: nat
  url :: string
  info :: ProcessInfo

record Heartbeat =
  appData :: AppData
  windowInfo :: WindowInfo
  project :: string
  entity :: string
  entityType :: string
  category :: string
  language :: string
  isWrite :: bool

text \<open>
  What the process reads from outside: the platform, the output of the \<open>k\<close>-th external
  command it runs (\<open>Inl\<close> the error when the command fails), the clock at the \<open>k\<close>-th
  reading, the ISO rendering of a time, and \<^verbatim>\<open>Math.random().toString(36)\<close> at the
  \<open>k\<close>-th draw.
\<close>

record env =
  platform :: string
  execAsync :: "nat \<Rightarrow> string \<Rightarrow> string + string"
  dateNow :: "nat \<Rightarrow> nat"
  toISOString :: "nat \<Rightarrow> string"
  random36 :: "nat \<Rightarrow> string"

text \<open>
  The state: the fields of the \<^verbatim>\<open>EnrolledProgramsManager\<close> singleton, the fields of the
  \<^verbatim>\<open>ProcessWatcher\<close>, and what the process has done to the outside so far: the file
  system, the log, the heartbeats handed to \<^verbatim>\<open>wakatime.sendHeartbeat\<close>, the active
  interval timers, and how many commands, clock readings and random draws it has made.
  \<open>dataDir\<close> is \<^verbatim>\<open>path.dirname(dataFilePath)\<close>, and \<open>writeError\<close> is the error
  a write to the file system raises, if it raises one.
\<close>

record state =
  dataFilePath :: string
  dataDir :: string
  programs :: "EnrolledProgram list"
  intervalId :: "nat option"
  monitoringInterval :: nat
  lastReportedPrograms :: "string list"
  nodes :: "string \<rightharpoonup> node"
  writeError :: "string option"
  logging :: "log_entry list"
  sent :: "Heartbeat list"
  timers :: "(nat \<times> nat) list"
  nextTimer :: nat
  execCount :: nat
  clockReads :: nat
  randomDraws :: nat

definition log3 :: "string \<Rightarrow> LogLevel \<Rightarrow> bool \<Rightarrow> state \<Rightarrow> state" where
  "log3 msg level flag s = s\<lparr>logging := logging s @ [(msg, Some level, flag)]\<rparr>"

definition log2 :: "string \<Rightarrow> LogLevel \<Rightarrow> state \<Rightarrow> state" where
  "log2 msg level s = s\<lparr>logging := logging s @ [(msg, Some level, False)]\<rparr>"

section \<open>The process scanner (ProcessMonitor)\<close>

definition parsePsLine :: "string \<Rightarrow> RunningProcess option" where
  "parsePsLine line =
     (let parts = split_ws (trim line)
      in if length parts < 3 then None
         else Some \<lparr>pid = parseInt (parts ! 0), proc_name = parts ! 1,
                    command = join_space (drop 2 parts)\<rparr>)"

definition parseTasklistLine :: "string \<Rightarrow> RunningProcess option" where
  "parseTasklistLine line =
     (let parts = map (filter (\<lambda>c. c \<noteq> CHR 0x22)) (split [CHR 0x22, CHR '','', CHR 0x22] line)
      in if length parts < 2 then None
         else Some \<lparr>pid = parseInt (parts ! 1), proc_name = parts ! 0, command = parts ! 0\<rparr>)"

definition exec :: "env \<Rightarrow> string \<Rightarrow> state \<Rightarrow> (string + string) \<times> state" where
  "exec e cmd s = (execAsync e (execCount s) cmd, s\<lparr>execCount := execCount s + 1\<rparr>)"

definition getLinuxProcesses :: "env \<Rightarrow> state \<Rightarrow> RunningProcess list \<times> state" where
  "getLinuxProcesses e s =
     (case exec e ''ps -eo pid,comm,cmd --no-headers'' s of
        (Inr stdout, s1) \<Rightarrow> (List.map_filter parsePsLine (split [CHR 0x0A] (trim stdout)), s1)
      | (Inl err, s1) \<Rightarrow> ([], log3 (''Failed to get Linux processes: '' @ err) ERROR True s1))"

definition getMacProcesses :: "env \<Rightarrow> state \<Rightarrow> RunningProcess list \<times> state" where
  "getMacProcesses e s =
     (case exec e ''ps -eo pid,comm,command'' s of
        (Inr stdout, s1) \<Rightarrow> (List.map_filter parsePsLine (drop 1 (split [CHR 0x0A] (trim stdout))), s1)
      | (Inl err, s1) \<Rightarrow> ([], log3 (''Failed to get macOS processes: '' @ err) ERROR True s1))"

definition getWindowsProcesses :: "env \<Rightarrow> state \<Rightarrow> RunningProcess list \<times> state" where
  "getWindowsProcesses e s =
     (case exec e ''tasklist /fo csv /nh'' s of
        (Inr stdout, s1) \<Rightarrow> (List.map_filter parseTasklistLine (split [CHR 0x0A] (trim stdout)), s1)
      | (Inl err, s1) \<Rightarrow> ([], log3 (''Failed to get Windows processes: '' @ err) ERROR True s1))"

definition getRunningProcesses :: "env \<Rightarrow> state \<Rightarrow> RunningProcess list \<times> state" where
  "getRunningProcesses e s =
     (if platform e = ''linux'' then getLinuxProcesses e s
      else if platform e = ''darwin'' then getMacProcesses e s
      else if platform e = ''win32'' then getWindowsProcesses e s
      else ([], log3 (''Failed to get running processes: Error: Unsupported platform: '' @ platform e)
                  ERROR True s))"

text \<open>The callback of \<^verbatim>\<open>processes.some\<close> in \<^verbatim>\<open>isProcessRunning\<close>, with its three returns.\<close>

definition processMatches :: "string \<Rightarrow> string \<Rightarrow> RunningProcess \<Rightarrow> bool" where
  "processMatches executableName executablePath proc =
     (if proc_name proc = executableName then True
      else if includes_str (command proc) executablePath then True
      else removeExt (proc_name proc) = removeExt executableName)"

definition isProcessRunning :: "env \<Rightarrow> string \<Rightarrow> state \<Rightarrow> bool \<times> state" where
  "isProcessRunning e executablePath s =
     (case getRunningProcesses e s of
        (processes, s1) \<Rightarrow>
          (list_ex (processMatches (basename (platform e) executablePath) executablePath) processes, s1))"

fun getRunningEnrolledPrograms :: "env \<Rightarrow> string list \<Rightarrow> state \<Rightarrow> string list \<times> state" where
  "getRunningEnrolledPrograms e [] s = ([], s)"
| "getRunningEnrolledPrograms e (programPath # rest) s =
     (case isProcessRunning e programPath s of
        (isRunning, s1) \<Rightarrow>
          (case getRunningEnrolledPrograms e rest s1 of
             (runningPrograms, s2) \<Rightarrow>
               ((if isRunning then programPath # runningPrograms else runningPrograms), s2)))"


section \<open>The enrollment registry (EnrolledProgramsManager)\<close>

definition existsSync :: "state \<Rightarrow> string \<Rightarrow> bool" where
  "existsSync s p = (nodes s p \<noteq> None)"

definition savePrograms :: "state \<Rightarrow> state" where
  "savePrograms s =
     (case writeError s of
        None \<Rightarrow> s\<lparr>nodes := (nodes s)(dataFilePath s \<mapsto> File (Programs (programs s)))\<rparr>
      | Some err \<Rightarrow> log3 (''Failed to save enrolled programs: '' @ err) ERROR True s)"

text \<open>The \<^verbatim>\<open>catch\<close> branch of \<^verbatim>\<open>loadPrograms\<close>.\<close>

definition loadFailed :: "string \<Rightarrow> state \<Rightarrow> state" where
  "loadFailed err s = (log3 (''Failed to load enrolled programs: '' @ err) ERROR True s)\<lparr>programs := []\<rparr>"

text \<open>\<^verbatim>\<open>JSON.parse(fs.readFileSync(dataFilePath))\<close> passed through the schema.\<close>

definition readPrograms :: "state \<Rightarrow> string + EnrolledProgram list" where
  "readPrograms s =
     (case nodes s (dataFilePath s) of
        Some (File (Programs ps)) \<Rightarrow> Inr ps
      | Some (File (Unparsable err)) \<Rightarrow> Inl err
      | Some Directory \<Rightarrow> Inl ''Error: EISDIR: illegal operation on a directory, read''
      | None \<Rightarrow> Inl ''Error: ENOENT: no such file or directory'')"

definition removalMessage :: "EnrolledProgram \<Rightarrow> log_entry" where
  "removalMessage program =
     (''Removing enrolled program '' @ name program @ '' because path no longer exists: '' @ path program,
      Some INFO, False)"

definition loadPrograms :: "state \<Rightarrow> state" where
  "loadPrograms s =
     (if \<not> existsSync s (dataFilePath s) then
        (if \<not> existsSync s (dataDir s) then
           (case writeError s of
              Some err \<Rightarrow> loadFailed err s
            | None \<Rightarrow> savePrograms (s\<lparr>nodes := (nodes s)(dataDir s \<mapsto> Directory)\<rparr>))
         else savePrograms s)
      else
        (case readPrograms s of
           Inl err \<Rightarrow> loadFailed err s
         | Inr parsed \<Rightarrow>
             savePrograms
               (s\<lparr>programs := filter (\<lambda>program. existsSync s (path program)) parsed,
                  logging := logging s @
                    map removalMessage (filter (\<lambda>program. \<not> existsSync s (path program)) parsed)\<rparr>)))"

text \<open>
  The constructor: the manager of a process that starts on the given file system, with
  the watcher's fields at their initial values.
\<close>

definition newState :: "string \<Rightarrow> string \<Rightarrow> (string \<rightharpoonup> node) \<Rightarrow> string option \<Rightarrow> state" where
  "newState file dir fs werr =
     loadPrograms
       \<lparr>dataFilePath = file, dataDir = dir, programs = [],
        intervalId = None, monitoringInterval = 60000, lastReportedPrograms = [],
        nodes = fs, writeError = werr, logging = [], sent = [], timers = [], nextTimer = 0,
        execCount = 0, clockReads = 0, randomDraws = 0\<rparr>"

definition generateId :: "env \<Rightarrow> state \<Rightarrow> string \<times> state" where
  "generateId e s =
     (toString_radix 36 (dateNow e (clockReads s)) @ drop 2 (random36 e (randomDraws s)),
      s\<lparr>clockReads := clockReads s + 1, randomDraws := randomDraws s + 1\<rparr>)"

definition isProgramEnrolled :: "state \<Rightarrow> string \<Rightarrow> bool" where
  "isProgramEnrolled s programPath = list_ex (\<lambda>p. path p = programPath) (programs s)"



definition getProgramByPath :: "state \<Rightarrow> string \<Rightarrow> EnrolledProgram option" where
  "getProgramByPath s programPath = find (\<lambda>p. path p = programPath) (programs s)"

definition getEnrolledPaths :: "state \<Rightarrow> string list" where
  "getEnrolledPaths s = map path (programs s)"

text \<open>The \<^verbatim>\<open>catch\<close> branch of \<^verbatim>\<open>enrollProgram\<close>.\<close>

definition enrollFailed :: "string \<Rightarrow> state \<Rightarrow> EnrolledProgram option \<times> state" where
  "enrollFailed err s = (None, log3 (''Failed to enroll program: '' @ err) ERROR True s)"

definition enrollProgram :: "env \<Rightarrow> string \<Rightarrow> state \<Rightarrow> EnrolledProgram option \<times> state" where
  "enrollProgram e programPath s =
     (if \<not> existsSync s programPath then
        enrollFailed (''Error: Program path does not exist: '' @ programPath) s
      else if isProgramEnrolled s programPath then
        enrollFailed (''Error: Program is already enrolled: '' @ programPath) s
      else
        (let programName = basename (platform e) programPath in
         case generateId e s of
           (newId, s1) \<Rightarrow>
             (let newProgram =
                    \<lparr>id' = newId, name = programName, path = programPath,
                     enrolledAt = toISOString e (dateNow e (clockReads s1)), lastSeen = None\<rparr>;
                  s2 = s1\<lparr>clockReads := clockReads s1 + 1\<rparr>;
                  s3 = savePrograms (s2\<lparr>programs := programs s2 @ [newProgram]\<rparr>)
              in (Some newProgram,
                  log2 (''Enrolled program: '' @ programName @ '' at '' @ programPath) INFO s3))))"

text \<open>\<^verbatim>\<open>Array.prototype.findIndex\<close>, with \<open>None\<close> for \<open>-1\<close>.\<close>

fun findIndex :: "('a \<Rightarrow> bool) \<Rightarrow> 'a list \<Rightarrow> nat option" where
  "findIndex P [] = None"
| "findIndex P (a # as) =
     (if P a then Some 0 else (case findIndex P as of None \<Rightarrow> None | Some i \<Rightarrow> Some (Suc i)))"

definition removeProgram :: "string \<Rightarrow> state \<Rightarrow> bool \<times> state" where
  "removeProgram programId s =
     (case findIndex (\<lambda>p. id' p = programId) (programs s) of
        None \<Rightarrow> (False, s)
      | Some index \<Rightarrow>
          (let removedProgram = programs s ! index;
               s1 = savePrograms (s\<lparr>programs := take index (programs s) @ drop (Suc index) (programs s)\<rparr>)
           in (True, log2 (''Removed enrolled program: '' @ name removedProgram) INFO s1)))"

text \<open>
  \<^verbatim>\<open>updateLastSeen\<close> writes into the object that \<^verbatim>\<open>getProgramByPath\<close> returns,
  which is the first element of the array with that path.
\<close>

definition updateLastSeen :: "env \<Rightarrow> string \<Rightarrow> state \<Rightarrow> state" where
  "updateLastSeen e programPath s =
     (case findIndex (\<lambda>p. path p = programPath) (programs s) of
        None \<Rightarrow> s
      | Some index \<Rightarrow>
          savePrograms
            (s\<lparr>programs := (programs s)[index :=
                   (programs s ! index)\<lparr>lastSeen := Some (toISOString e (dateNow e (clockReads s)))\<rparr>],
               clockReads := clockReads s + 1\<rparr>))"

text \<open>\<^verbatim>\<open>MonitoringManager.isMonitored\<close>.\<close>

definition isMonitored :: "state \<Rightarrow> string \<Rightarrow> bool" where
  "isMonitored s p = isProgramEnrolled s p"


section \<open>The polling watcher (ProcessWatcher)\<close>

text \<open>The entries of \<^verbatim>\<open>languageMap\<close>, in the order \<^verbatim>\<open>Object.entries\<close> lists them.\<close>

definition languageMap :: "(string \<times> string) list" where
  "languageMap =
     [(''code'', ''TypeScript''), (''code-oss'', ''TypeScript''), (''codium'', ''TypeScript''),
      (''vim'', ''Vim Script''), (''nvim'', ''Vim Script''), (''neovim'', ''Vim Script''),
      (''emacs'', ''Emacs Lisp''), (''nano'', ''Text''), (''gedit'', ''Text''), (''kate'', ''Text''),
      (''atom'', ''Text''), (''sublime_text'', ''Text''), (''webstorm'', ''JavaScript''),
      (''phpstorm'', ''PHP''), (''pycharm'', ''Python''), (''intellij'', ''Java''),
      (''eclipse'', ''Java''), (''netbeans'', ''Java''), (''rider'', ''C#''), (''clion'', ''C++''),
      (''goland'', ''Go''), (''rubymine'', ''Ruby'')]"

fun lookupLanguage :: "string \<Rightarrow> (string \<times> string) list \<Rightarrow> string" where
  "lookupLanguage programName [] = ''Other''"
| "lookupLanguage programName ((key, lang) # rest) =
     (if includes_str programName key then lang else lookupLanguage programName rest)"

definition determineLanguageFromPath :: "env \<Rightarrow> string \<Rightarrow> string" where
  "determineLanguageFromPath e programPath =
     lookupLanguage (toLowerCase (basename (platform e) programPath)) languageMap"

definition programHeartbeat :: "env \<Rightarrow> EnrolledProgram \<Rightarrow> string \<Rightarrow> Heartbeat" where
  "programHeartbeat e program programPath =
     \<lparr>appData =
        \<lparr>app_id = id' program, app_name = name program, app_path = programPath, icon = None,
         version = None, bundleId = None, isBrowser = False, isDefaultEnabled = True,
         isElectronApp = False, execName = name program\<rparr>,
      windowInfo =
        \<lparr>win_id = 0, os = platform e, title = name program,
         position = \<lparr>pos_x = 0, pos_y = 0, width = 0, height = 0, isFullScreen = False\<rparr>,
         usage_memory = 0, usage_cpu = 0, url = [],
         info = \<lparr>info_name = name program, info_path = programPath, processId = 0\<rparr>\<rparr>,
      project = name program,
      entity = programPath,
      entityType = ''app'',
      category = ''coding'',
      language = determineLanguageFromPath e programPath,
      isWrite = False\<rparr>"

definition sendProgramHeartbeat :: "env \<Rightarrow> string \<Rightarrow> state \<Rightarrow> state" where
  "sendProgramHeartbeat e programPath s =
     (case getProgramByPath s programPath of
        None \<Rightarrow> s
      | Some program \<Rightarrow>
          log2 (''Sent heartbeat for '' @ name program) DEBUG
            (s\<lparr>sent := sent s @ [programHeartbeat e program programPath]\<rparr>))"

text \<open>
  A JavaScript \<^verbatim>\<open>Set\<close> of strings is the list of its elements in insertion order,
  which is the order its iteration follows.
\<close>

definition Set_add :: "string list \<Rightarrow> string \<Rightarrow> string list" where
  "Set_add S a = (if a \<in> set S then S else S @ [a])"

definition new_Set :: "string list \<Rightarrow> string list" where
  "new_Set as = foldl Set_add [] as"

text \<open>The three loops of \<^verbatim>\<open>checkEnrolledPrograms\<close>.\<close>

fun logDetected :: "string list \<Rightarrow> state \<Rightarrow> state" where
  "logDetected [] s = s"
| "logDetected (programPath # rest) s =
     logDetected rest
       (if programPath \<notin> set (lastReportedPrograms s) then
          (case getProgramByPath s programPath of
             Some program \<Rightarrow> log2 (''Detected enrolled program running: '' @ name program) INFO s
           | None \<Rightarrow> s)
        else s)"

fun logStopped :: "string list \<Rightarrow> string list \<Rightarrow> state \<Rightarrow> state" where
  "logStopped [] currentRunningSet s = s"
| "logStopped (programPath # rest) currentRunningSet s =
     logStopped rest currentRunningSet
       (if programPath \<notin> set currentRunningSet then
          (case getProgramByPath s programPath of
             Some program \<Rightarrow> log2 (''Enrolled program stopped: '' @ name program) INFO s
           | None \<Rightarrow> s)
        else s)"

fun sendHeartbeats :: "env \<Rightarrow> string list \<Rightarrow> state \<Rightarrow> state" where
  "sendHeartbeats e [] s = s"
| "sendHeartbeats e (programPath # rest) s =
     sendHeartbeats e rest (updateLastSeen e programPath (sendProgramHeartbeat e programPath s))"

text \<open>
  One polling cycle. The cycle is taken as a whole: what else the process does while the
  cycle waits for the scanner is not part of this model.
\<close>

definition checkEnrolledPrograms :: "env \<Rightarrow> state \<Rightarrow> state" where
  "checkEnrolledPrograms e s =
     (let enrolledPaths = getEnrolledPaths s in
      if length enrolledPaths = 0 then s
      else
        (case getRunningEnrolledPrograms e enrolledPaths s of
           (runningPrograms, s1) \<Rightarrow>
             (let currentRunningSet = new_Set runningPrograms;
                  s2 = logDetected runningPrograms s1;
                  s3 = logStopped (lastReportedPrograms s2) currentRunningSet s2;
                  s4 = sendHeartbeats e runningPrograms s3
              in s4\<lparr>lastReportedPrograms := currentRunningSet\<rparr>)))"

text \<open>
  Timers: \<^verbatim>\<open>setInterval\<close> registers a timer under a handle never used before and
  \<^verbatim>\<open>clearInterval\<close> removes the timer with the given handle.
\<close>

definition clearInterval :: "nat \<Rightarrow> state \<Rightarrow> state" where
  "clearInterval h s = s\<lparr>timers := filter (\<lambda>t. fst t \<noteq> h) (timers s)\<rparr>"

definition setInterval :: "nat \<Rightarrow> state \<Rightarrow> nat \<times> state" where
  "setInterval ms s = (nextTimer s, s\<lparr>timers := timers s @ [(nextTimer s, ms)], nextTimer := nextTimer s + 1\<rparr>)"

definition stop :: "state \<Rightarrow> state" where
  "stop s =
     (case intervalId s of
        None \<Rightarrow> s
      | Some h \<Rightarrow> log2 ''Stopped process monitoring'' INFO ((clearInterval h s)\<lparr>intervalId := None\<rparr>))"

definition start :: "env \<Rightarrow> state \<Rightarrow> state" where
  "start e s =
     (let s1 = (if intervalId s \<noteq> None then stop s else s);
          s2 = log2 (''Starting process monitoring with '' @ toString_radix 10 (monitoringInterval s1)
                       @ ''ms interval'') INFO s1;
          s3 = checkEnrolledPrograms e s2
      in case setInterval (monitoringInterval s3) s3 of
           (h, s4) \<Rightarrow> s4\<lparr>intervalId := Some h\<rparr>)"

definition setMonitoringInterval :: "env \<Rightarrow> nat \<Rightarrow> state \<Rightarrow> state" where
  "setMonitoringInterval e intervalMs s =
     (let s1 = s\<lparr>monitoringInterval := intervalMs\<rparr>
      in if intervalId s1 \<noteq> None then start e (stop s1) else s1)"

definition isRunning :: "state \<Rightarrow> bool" where
  "isRunning s = (intervalId s \<noteq> None)"

definition getMonitoringInterval :: "state \<Rightarrow> nat" where
  "getMonitoringInterval s = monitoringInterval s"

definition getCurrentlyRunningPrograms :: "state \<Rightarrow> string list" where
  "getCurrentlyRunningPrograms s = lastReportedPrograms s"


section \<open>The window and keyboard watcher (Watcher)\<close>

text \<open>
  The fields of the \<^verbatim>\<open>Watcher\<close> class, the calls it has made on the global
  key listener, and the log entries it has written. The callback that \<^verbatim>\<open>start\<close>
  hands to \<^verbatim>\<open>subscribeActiveWindow\<close> is the same in both versions of the class.
\<close>

datatype gkl_call = AddListener | RemoveListener

record Watcher =
  activeWindow :: "WindowInfo option"
  activeWindowSubscription :: "nat option"
  isWatchingForKeyboardEvents :: bool
  fallbackMode :: bool
  gkl :: "gkl_call list"
  logged :: "log_entry list"

definition log1 :: "string \<Rightarrow> Watcher \<Rightarrow> Watcher" where
  "log1 msg w = w\<lparr>logged := logged w @ [(msg, None, False)]\<rparr>"

definition watchKeyboardEvents :: "Watcher \<Rightarrow> Watcher" where
  "watchKeyboardEvents w = w\<lparr>isWatchingForKeyboardEvents := True, gkl := gkl w @ [AddListener]\<rparr>"

definition unwatchKeyboardEvents :: "Watcher \<Rightarrow> Watcher" where
  "unwatchKeyboardEvents w = w\<lparr>isWatchingForKeyboardEvents := False, gkl := gkl w @ [RemoveListener]\<rparr>"

text \<open>\<^verbatim>\<open>this.activeWindow?.info.name || "nil"\<close>.\<close>

definition activeName :: "Watcher \<Rightarrow> string" where
  "activeName w =
     (case activeWindow w of
        None \<Rightarrow> ''nil''
      | Some a \<Rightarrow> (if info_name (info a) = [] then ''nil'' else info_name (info a)))"

definition onActiveWindow :: "state \<Rightarrow> WindowInfo \<Rightarrow> Watcher \<Rightarrow> Watcher" where
  "onActiveWindow s wi w =
     (if processId (info wi) = 0 then w
      else if (case activeWindow w of None \<Rightarrow> False
               | Some a \<Rightarrow> processId (info a) = processId (info wi)) then w
      else
        (let w1 = (if isWatchingForKeyboardEvents w then unwatchKeyboardEvents w else w);
             w2 = log1 (''App changed from '' @ activeName w1 @ '' to '' @ info_name (info wi)) w1;
             w3 = w2\<lparr>activeWindow := Some wi\<rparr>
         in if info_path (info wi) \<noteq> [] then
              (if isMonitored s (info_path (info wi)) then
                 watchKeyboardEvents
                   (log1 (''Monitoring '' @ info_name (info wi) @ '': '' @ info_path (info wi)) w3)
               else log1 (''Not monitoring '' @ info_name (info wi) @ '': '' @ info_path (info wi)) w3)
            else w3))"

section \<open>Observations used in the statements\<close>

text \<open>
  The transitions of the polling watcher are its log entries of level \<^verbatim>\<open>INFO\<close>:
  this is the list of their messages, oldest first.
\<close>

definition transitions :: "state \<Rightarrow> string list" where
  "transitions s = map fst (filter (\<lambda>entry. fst (snd entry) = Some INFO) (logging s))"

text \<open>What identifies an enrolled program, and never changes once it is enrolled.\<close>

definition key :: "EnrolledProgram \<Rightarrow> string \<times> string \<times> string" where
  "key r = (id' r, name r, path r)"

text \<open>
  The heartbeats, the \<^emph>\<open>entered\<close> messages and the \<^emph>\<open>exited\<close> messages of one cycle,
  written as functions of the registry, of the paths reported running by the previous
  cycle and of the paths running now.
\<close>

definition heartbeatsFor :: "env \<Rightarrow> EnrolledProgram list \<Rightarrow> string list \<Rightarrow> Heartbeat list" where
  "heartbeatsFor e progs running =
     concat (map (\<lambda>p. case find (\<lambda>r. path r = p) progs of
                         None \<Rightarrow> [] | Some r \<Rightarrow> [programHeartbeat e r p]) running)"

definition detectedFor :: "EnrolledProgram list \<Rightarrow> string list \<Rightarrow> string list \<Rightarrow> string list" where
  "detectedFor progs previous running =
     concat (map (\<lambda>p. if p \<in> set previous then []
                       else (case find (\<lambda>r. path r = p) progs of
                               None \<Rightarrow> []
                             | Some r \<Rightarrow> [''Detected enrolled program running: '' @ name r])) running)"

definition stoppedFor :: "EnrolledProgram list \<Rightarrow> string list \<Rightarrow> string list \<Rightarrow> string list" where
  "stoppedFor progs previous current =
     concat (map (\<lambda>p. if p \<in> set current then []
                       else (case find (\<lambda>r. path r = p) progs of
                               None \<Rightarrow> []
                             | Some r \<Rightarrow> [''Enrolled program stopped: '' @ name r])) previous)"

text \<open>The state without its log and its counters: what scanning and logging leave alone.\<close>

definition rest :: "state \<Rightarrow> state" where
  "rest s = s\<lparr>logging := [], execCount := 0, clockReads := 0, randomDraws := 0\<rparr>"

text \<open>What the scanner reports for the enrolled paths in the cycle that starts in a state.\<close>

definition runningNow :: "env \<Rightarrow> state \<Rightarrow> string list" where
  "runningNow e s = fst (getRunningEnrolledPrograms e (getEnrolledPaths s) s)"


section \<open>Sample inputs\<close>

text \<open>
  A Linux machine on which the registry holds \<^verbatim>\<open>/usr/bin/code\<close> and
  \<^verbatim>\<open>/usr/bin/vim\<close>, and the outputs of \<^verbatim>\<open>ps\<close> when the first, both, or the
  second of them run.
\<close>

definition sampleCode :: EnrolledProgram where
  "sampleCode = \<lparr>id' = ''lqz1abc'', name = ''code'', path = ''/usr/bin/code'',
                  enrolledAt = ''2025-01-01T10:00:00.000Z'', lastSeen = None\<rparr>"

definition sampleVim :: EnrolledProgram where
  "sampleVim = \<lparr>id' = ''lqz2def'', name = ''vim'', path = ''/usr/bin/vim'',
                 enrolledAt = ''2025-01-01T10:05:00.000Z'', lastSeen = None\<rparr>"

definition sampleState :: state where
  "sampleState =
     \<lparr>dataFilePath = ''/home/u/.wakatime/enrolled-programs.json'', dataDir = ''/home/u/.wakatime'',
      programs = [sampleCode, sampleVim],
      intervalId = None, monitoringInterval = 60000, lastReportedPrograms = [],
      nodes = [''/home/u/.wakatime'' \<mapsto> Directory,
               ''/home/u/.wakatime/enrolled-programs.json'' \<mapsto> File (Programs [sampleCode, sampleVim]),
               ''/usr/bin/code'' \<mapsto> File (Unparsable ''SyntaxError''),
               ''/usr/bin/vim'' \<mapsto> File (Unparsable ''SyntaxError'')],
      writeError = None, logging = [], sent = [], timers = [], nextTimer = 0,
      execCount = 0, clockReads = 0, randomDraws = 0\<rparr>"

definition psCode :: string where
  "psCode = ''  101 code /usr/bin/code --new-window''"

definition psVim :: string where
  "psVim = ''  202 vim /usr/bin/vim notes.txt''"

definition sampleEnv :: "string \<Rightarrow> env" where
  "sampleEnv stdout =
     \<lparr>platform = ''linux'', execAsync = (\<lambda>k cmd. Inr stdout), dateNow = (\<lambda>k. 1735725600000 + k),
      toISOString = (\<lambda>ms. ''2025-01-01T10:00:00.000Z''), random36 = (\<lambda>k. ''0.4fzyo82mvyr'')\<rparr>"

definition psBoth :: string where
  "psBoth = psCode @ [CHR 0x0A] @ psVim"

definition sampleCycle1 :: state where
  "sampleCycle1 = checkEnrolledPrograms (sampleEnv psCode) sampleState"

definition sampleCycle2 :: state where
  "sampleCycle2 = checkEnrolledPrograms (sampleEnv psBoth) sampleCycle1"

definition sampleCycle3 :: state where
  "sampleCycle3 = checkEnrolledPrograms (sampleEnv psVim) sampleCycle2"

text \<open>
  The calls a host makes on the polling watcher, with a firing of the interval timer among
  them; a timer fires only while it is active.
\<close>

datatype call = Start env | Stop | SetMonitoringInterval env nat | Tick env

fun perform :: "call \<Rightarrow> state \<Rightarrow> state" where
  "perform (Start e) s = start e s"
| "perform Stop s = stop s"
| "perform (SetMonitoringInterval e intervalMs) s = setMonitoringInterval e intervalMs s"
| "perform (Tick e) s = (if timers s = [] then s else checkEnrolledPrograms e s)"

definition performAll :: "call list \<Rightarrow> state \<Rightarrow> state" where
  "performAll calls s = foldl (\<lambda>s' c. perform c s') s calls"

text \<open>
  The active timers are exactly the one the watcher holds a handle of, and that handle
  has been given out already.
\<close>

definition timer_ok :: "state \<Rightarrow> bool" where
  "timer_ok s =
     (case intervalId s of
        None \<Rightarrow> timers s = []
      | Some h \<Rightarrow> map fst (timers s) = [h] \<and> h < nextTimer s)"

text \<open>The sample registry after both programs were removed, while the watcher still remembers one.\<close>

definition sampleEmptied :: state where
  "sampleEmptied = sampleState\<lparr>programs := [], lastReportedPrograms := [''/usr/bin/vim'']\<rparr>"

text \<open>A window of the editor, and a watcher that tracks it and listens to the keyboard.\<close>

definition sampleWindow :: "string \<Rightarrow> WindowInfo" where
  "sampleWindow t =
     \<lparr>win_id = 7, os = ''linux'', title = t,
      position = \<lparr>pos_x = 0, pos_y = 0, width = 800, height = 600, isFullScreen = False\<rparr>,
      usage_memory = 0, usage_cpu = 0, url = [],
      info = \<lparr>info_name = ''code'', info_path = ''/usr/bin/code'', processId = 4242\<rparr>\<rparr>"

definition sampleWatcher :: Watcher where
  "sampleWatcher =
     \<lparr>activeWindow = Some (sampleWindow ''a.ts''), activeWindowSubscription = Some 0,
      isWatchingForKeyboardEvents = True, fallbackMode = False, gkl = [AddListener],
      logged = [(''App changed from nil to code'', None, False),
                (''Monitoring code: /usr/bin/code'', None, False)]\<rparr>"





text \<open>
  A name that Windows accepts as a file name has none of the characters
  \<^verbatim>\<open>\ / : * ? " < > |\<close>; the image names that \<^verbatim>\<open>tasklist\<close> prints are such names.
\<close>

definition windowsFileName :: "string \<Rightarrow> bool" where
  "windowsFileName n =
     list_all (\<lambda>c. c \<notin> set [CHR 0x5C, CHR ''/'', CHR '':'', CHR ''*'', CHR ''?'', CHR 0x22,
                                CHR ''<'', CHR ''>'', CHR ''|'']) n"

text \<open>A Windows machine: the lines that \<^verbatim>\<open>tasklist /fo csv /nh\<close> prints, and an enrolled path.\<close>

definition tasklistLine :: "string \<Rightarrow> string \<Rightarrow> string" where
  "tasklistLine imageName number =
     [CHR 0x22] @ imageName @ [CHR 0x22, CHR '','', CHR 0x22] @ number @ [CHR 0x22, CHR '','', CHR 0x22]
       @ ''Console'' @ [CHR 0x22, CHR '','', CHR 0x22] @ ''1'' @ [CHR 0x22, CHR '','', CHR 0x22]
       @ ''98,304 K'' @ [CHR 0x22]"

definition sampleTasklist :: string where
  "sampleTasklist =
     tasklistLine ''explorer.exe'' ''812'' @ [CHR 0x0D, CHR 0x0A]
       @ tasklistLine ''Code.exe'' ''4242'' @ [CHR 0x0D, CHR 0x0A]"

definition windowsEnv :: env where
  "windowsEnv =
     \<lparr>platform = ''win32'', execAsync = (\<lambda>k cmd. Inr sampleTasklist), dateNow = (\<lambda>k. 1735725600000 + k),
      toISOString = (\<lambda>ms. ''2025-01-01T10:00:00.000Z''), random36 = (\<lambda>k. ''0.4fzyo82mvyr'')\<rparr>"

definition windowsCodePath :: string where
  "windowsCodePath = ''C:'' @ [CHR 0x5C] @ ''Tools'' @ [CHR 0x5C] @ ''Code.exe''"

section \<open>Strings: what the primitives compute\<close>

lemma startsWith_iff: "startsWith s n \<longleftrightarrow> (\<exists>post. s = n @ post)"
  by (induction s n rule: startsWith.induct) auto

lemma includes_str_iff: "includes_str hay n \<longleftrightarrow> (\<exists>pre post. hay = pre @ n @ post)"
proof (induction hay)
  case Nil
  then show ?case by auto
next
  case (Cons c cs)
  show ?case
  proof
    assume "includes_str (c # cs) n"
    then consider "startsWith (c # cs) n" | "includes_str cs n" by auto
    then show "\<exists>pre post. c # cs = pre @ n @ post"
    proof cases
      case 1
      then obtain post where "c # cs = n @ post" by (auto simp: startsWith_iff)
      then have "c # cs = [] @ n @ post" by simp
      then show ?thesis by blast
    next
      case 2
      then obtain pre post where "cs = pre @ n @ post" using Cons.IH by auto
      then have "c # cs = (c # pre) @ n @ post" by simp
      then show ?thesis by blast
    qed
  next
    assume "\<exists>pre post. c # cs = pre @ n @ post"
    then obtain pre post where h: "c # cs = pre @ n @ post" by blast
    show "includes_str (c # cs) n"
    proof (cases pre)
      case Nil
      with h have "startsWith (c # cs) n" by (auto simp: startsWith_iff)
      then show ?thesis by simp
    next
      case (Cons d ds)
      with h have "cs = ds @ n @ post" by simp
      then have "includes_str cs n" using Cons.IH by blast
      then show ?thesis by simp
    qed
  qed
qed

text \<open>
  Removing the extension: a name that ends in a dot and a non-empty run of characters
  other than \<^verbatim>\<open>/\<close> and \<^verbatim>\<open>.\<close> loses that ending; any other name is
  left as it is.
\<close>

lemma removeExt_from_ext:
  "ext \<noteq> [] \<Longrightarrow> list_all (\<lambda>d. d \<noteq> CHR ''/'' \<and> d \<noteq> CHR ''.'') ext \<Longrightarrow>
   removeExt_from cur (base @ CHR ''.'' # ext) = rev cur @ base"
  by (induction base arbitrary: cur) (auto simp: ext_matches_def)

lemma removeExt_from_none:
  "(\<And>base ext. s = base @ ext \<Longrightarrow> \<not> ext_matches ext) \<Longrightarrow> removeExt_from cur s = rev cur @ s"
proof (induction s arbitrary: cur)
  case Nil
  then show ?case by simp
next
  case (Cons c cs)
  have 1: "\<not> ext_matches (c # cs)" using Cons.prems[of "[]" "c # cs"] by simp
  have 2: "\<And>base ext. cs = base @ ext \<Longrightarrow> \<not> ext_matches ext"
    using Cons.prems[of "c # base" for base] by simp
  show ?case using 1 Cons.IH[OF 2] by simp
qed

lemma removeExt_ext:
  "ext \<noteq> [] \<Longrightarrow> list_all (\<lambda>d. d \<noteq> CHR ''/'' \<and> d \<noteq> CHR ''.'') ext \<Longrightarrow>
   removeExt (base @ CHR ''.'' # ext) = base"
  by (simp add: removeExt_def removeExt_from_ext)

lemma removeExt_none:
  "(\<And>base ext. s = base @ CHR ''.'' # ext \<Longrightarrow> ext = [] \<or> \<not> list_all (\<lambda>d. d \<noteq> CHR ''/'' \<and> d \<noteq> CHR ''.'') ext) \<Longrightarrow>
   removeExt s = s"
  unfolding removeExt_def
  by (subst removeExt_from_none) (auto simp: ext_matches_def split: list.splits)

section \<open>The process scanner: detection\<close>


section \<open>What scanning and logging leave alone\<close>

lemma log3_rest [simp]: "rest (log3 m l f s) = rest s"
  by (simp add: rest_def log3_def)

lemma log2_rest [simp]: "rest (log2 m l s) = rest s"
  by (simp add: rest_def log2_def)

lemma transitions_log3 [simp]:
  "transitions (log3 m l f s) = (if l = INFO then transitions s @ [m] else transitions s)"
  by (simp add: transitions_def log3_def)

lemma transitions_log2 [simp]:
  "transitions (log2 m l s) = (if l = INFO then transitions s @ [m] else transitions s)"
  by (simp add: transitions_def log2_def)

lemma getRunningProcesses_rest [simp]: "rest (snd (getRunningProcesses e s)) = rest s"
  by (auto simp: getRunningProcesses_def getLinuxProcesses_def getMacProcesses_def
        getWindowsProcesses_def exec_def rest_def log3_def split: sum.splits prod.splits)

lemma getRunningProcesses_transitions [simp]:
  "transitions (snd (getRunningProcesses e s)) = transitions s"
  by (auto simp: getRunningProcesses_def getLinuxProcesses_def getMacProcesses_def
        getWindowsProcesses_def exec_def transitions_def log3_def split: sum.splits prod.splits)

lemma isProcessRunning_rest [simp]: "rest (snd (isProcessRunning e p s)) = rest s"
  using getRunningProcesses_rest[of e s]
  by (cases "getRunningProcesses e s") (simp add: isProcessRunning_def)

lemma isProcessRunning_transitions [simp]:
  "transitions (snd (isProcessRunning e p s)) = transitions s"
  using getRunningProcesses_transitions[of e s]
  by (cases "getRunningProcesses e s") (simp add: isProcessRunning_def)

lemma getRunningEnrolledPrograms_rest [simp]:
  "rest (snd (getRunningEnrolledPrograms e ps s)) = rest s"
proof (induction ps arbitrary: s)
  case Nil
  show ?case by simp
next
  case (Cons p ps)
  show ?case
    using Cons.IH[of "snd (isProcessRunning e p s)"] isProcessRunning_rest[of e p s]
    by (cases "isProcessRunning e p s"; cases "getRunningEnrolledPrograms e ps (snd (isProcessRunning e p s))")
       simp
qed

lemma getRunningEnrolledPrograms_transitions [simp]:
  "transitions (snd (getRunningEnrolledPrograms e ps s)) = transitions s"
proof (induction ps arbitrary: s)
  case Nil
  show ?case by simp
next
  case (Cons p ps)
  show ?case
    using Cons.IH[of "snd (isProcessRunning e p s)"] isProcessRunning_transitions[of e p s]
    by (cases "isProcessRunning e p s"; cases "getRunningEnrolledPrograms e ps (snd (isProcessRunning e p s))")
       simp
qed

lemma rest_fields:
  assumes "rest s' = rest s"
  shows "programs s' = programs s" "sent s' = sent s"
    "lastReportedPrograms s' = lastReportedPrograms s" "timers s' = timers s"
    "intervalId s' = intervalId s" "nextTimer s' = nextTimer s"
    "monitoringInterval s' = monitoringInterval s" "nodes s' = nodes s"
    "writeError s' = writeError s" "dataFilePath s' = dataFilePath s" "dataDir s' = dataDir s"
proof -
  have "programs (rest s') = programs (rest s)" using assms by simp
  then show "programs s' = programs s" by (simp add: rest_def)
  have "sent (rest s') = sent (rest s)" using assms by simp
  then show "sent s' = sent s" by (simp add: rest_def)
  have "lastReportedPrograms (rest s') = lastReportedPrograms (rest s)" using assms by simp
  then show "lastReportedPrograms s' = lastReportedPrograms s" by (simp add: rest_def)
  have "timers (rest s') = timers (rest s)" using assms by simp
  then show "timers s' = timers s" by (simp add: rest_def)
  have "intervalId (rest s') = intervalId (rest s)" using assms by simp
  then show "intervalId s' = intervalId s" by (simp add: rest_def)
  have "nextTimer (rest s') = nextTimer (rest s)" using assms by simp
  then show "nextTimer s' = nextTimer s" by (simp add: rest_def)
  have "monitoringInterval (rest s') = monitoringInterval (rest s)" using assms by simp
  then show "monitoringInterval s' = monitoringInterval s" by (simp add: rest_def)
  have "nodes (rest s') = nodes (rest s)" using assms by simp
  then show "nodes s' = nodes s" by (simp add: rest_def)
  have "writeError (rest s') = writeError (rest s)" using assms by simp
  then show "writeError s' = writeError s" by (simp add: rest_def)
  have "dataFilePath (rest s') = dataFilePath (rest s)" using assms by simp
  then show "dataFilePath s' = dataFilePath s" by (simp add: rest_def)
  have "dataDir (rest s') = dataDir (rest s)" using assms by simp
  then show "dataDir s' = dataDir s" by (simp add: rest_def)
qed

section \<open>What the registry operations change\<close>

lemma log3_fields [simp]:
  "programs (log3 m l f s) = programs s"
  "sent (log3 m l f s) = sent s"
  "lastReportedPrograms (log3 m l f s) = lastReportedPrograms s"
  "timers (log3 m l f s) = timers s"
  "intervalId (log3 m l f s) = intervalId s"
  "nextTimer (log3 m l f s) = nextTimer s"
  "monitoringInterval (log3 m l f s) = monitoringInterval s"
  "nodes (log3 m l f s) = nodes s"
  "writeError (log3 m l f s) = writeError s"
  "dataFilePath (log3 m l f s) = dataFilePath s"
  "dataDir (log3 m l f s) = dataDir s"
  "execCount (log3 m l f s) = execCount s"
  "clockReads (log3 m l f s) = clockReads s"
  "randomDraws (log3 m l f s) = randomDraws s"
  "logging (log3 m l f s) = logging s @ [(m, Some l, f)]"
  by (simp_all add: log3_def)

lemma log2_fields [simp]:
  "programs (log2 m l s) = programs s"
  "sent (log2 m l s) = sent s"
  "lastReportedPrograms (log2 m l s) = lastReportedPrograms s"
  "timers (log2 m l s) = timers s"
  "intervalId (log2 m l s) = intervalId s"
  "nextTimer (log2 m l s) = nextTimer s"
  "monitoringInterval (log2 m l s) = monitoringInterval s"
  "nodes (log2 m l s) = nodes s"
  "writeError (log2 m l s) = writeError s"
  "dataFilePath (log2 m l s) = dataFilePath s"
  "dataDir (log2 m l s) = dataDir s"
  "execCount (log2 m l s) = execCount s"
  "clockReads (log2 m l s) = clockReads s"
  "randomDraws (log2 m l s) = randomDraws s"
  "logging (log2 m l s) = logging s @ [(m, Some l, False)]"
  by (simp_all add: log2_def)





lemma transitions_update [simp]:
  "transitions (s\<lparr>programs := ps\<rparr>) = transitions s"
  "transitions (s\<lparr>clockReads := n\<rparr>) = transitions s"
  "transitions (s\<lparr>randomDraws := n\<rparr>) = transitions s"
  "transitions (s\<lparr>sent := hs\<rparr>) = transitions s"
  "transitions (s\<lparr>nodes := fs\<rparr>) = transitions s"
  "transitions (s\<lparr>lastReportedPrograms := l\<rparr>) = transitions s"
  "transitions (s\<lparr>timers := ts\<rparr>) = transitions s"
  "transitions (s\<lparr>nextTimer := n\<rparr>) = transitions s"
  "transitions (s\<lparr>intervalId := h\<rparr>) = transitions s"
  "transitions (s\<lparr>monitoringInterval := n\<rparr>) = transitions s"
  by (simp_all add: transitions_def)

lemma savePrograms_fields [simp]:
  "programs (savePrograms s) = programs s"
  "sent (savePrograms s) = sent s"
  "lastReportedPrograms (savePrograms s) = lastReportedPrograms s"
  "timers (savePrograms s) = timers s"
  "intervalId (savePrograms s) = intervalId s"
  "nextTimer (savePrograms s) = nextTimer s"
  "monitoringInterval (savePrograms s) = monitoringInterval s"
  "writeError (savePrograms s) = writeError s"
  "dataFilePath (savePrograms s) = dataFilePath s"
  "dataDir (savePrograms s) = dataDir s"
  "execCount (savePrograms s) = execCount s"
  "clockReads (savePrograms s) = clockReads s"
  "randomDraws (savePrograms s) = randomDraws s"
  "transitions (savePrograms s) = transitions s"
  by (simp_all add: savePrograms_def split: option.splits)

lemma savePrograms_nodes:
  "nodes (savePrograms s) =
     (if writeError s = None then (nodes s)(dataFilePath s \<mapsto> File (Programs (programs s))) else nodes s)"
  by (simp add: savePrograms_def split: option.splits)

lemma key_lastSeen [simp]: "key (r\<lparr>lastSeen := v\<rparr>) = key r"
  by (simp add: key_def)

lemma map_key_update: "map key (as[i := (as ! i)\<lparr>lastSeen := v\<rparr>]) = map key as"
proof (cases "i < length as")
  case True
  then show ?thesis by (simp add: map_update list_update_same_conv)
next
  case False
  then have "as[i := (as ! i)\<lparr>lastSeen := v\<rparr>] = as" by (simp add: list_update_beyond)
  then show ?thesis by simp
qed

lemma updateLastSeen_fields [simp]:
  "map key (programs (updateLastSeen e p s)) = map key (programs s)"
  "sent (updateLastSeen e p s) = sent s"
  "lastReportedPrograms (updateLastSeen e p s) = lastReportedPrograms s"
  "timers (updateLastSeen e p s) = timers s"
  "intervalId (updateLastSeen e p s) = intervalId s"
  "nextTimer (updateLastSeen e p s) = nextTimer s"
  "monitoringInterval (updateLastSeen e p s) = monitoringInterval s"
  "writeError (updateLastSeen e p s) = writeError s"
  "dataFilePath (updateLastSeen e p s) = dataFilePath s"
  "execCount (updateLastSeen e p s) = execCount s"
  "transitions (updateLastSeen e p s) = transitions s"
  by (simp_all add: updateLastSeen_def map_key_update split: option.splits)

lemma sendProgramHeartbeat_fields [simp]:
  "programs (sendProgramHeartbeat e p s) = programs s"
  "lastReportedPrograms (sendProgramHeartbeat e p s) = lastReportedPrograms s"
  "timers (sendProgramHeartbeat e p s) = timers s"
  "intervalId (sendProgramHeartbeat e p s) = intervalId s"
  "nextTimer (sendProgramHeartbeat e p s) = nextTimer s"
  "monitoringInterval (sendProgramHeartbeat e p s) = monitoringInterval s"
  "execCount (sendProgramHeartbeat e p s) = execCount s"
  "transitions (sendProgramHeartbeat e p s) = transitions s"
  by (simp_all add: sendProgramHeartbeat_def split: option.splits)

lemma sendProgramHeartbeat_sent:
  "sent (sendProgramHeartbeat e p s) = sent s @ heartbeatsFor e (programs s) [p]"
  by (simp add: sendProgramHeartbeat_def heartbeatsFor_def getProgramByPath_def
           split: option.splits)

text \<open>A heartbeat and the messages depend on the registry only through the keys.\<close>

lemma find_key:
  "map key as = map key bs \<Longrightarrow>
   map_option key (find (\<lambda>r. path r = p) as) = map_option key (find (\<lambda>r. path r = p) bs)"
proof (induction as arbitrary: bs)
  case Nil
  then show ?case by simp
next
  case (Cons a as)
  then obtain b bs' where bs: "bs = b # bs'" "key a = key b" "map key as = map key bs'"
    by (cases bs) auto
  from bs(2) have "path a = path b" by (simp add: key_def)
  with Cons.IH[OF bs(3)] bs show ?case by simp
qed

lemma programHeartbeat_key: "key r = key r' \<Longrightarrow> programHeartbeat e r p = programHeartbeat e r' p"
  by (simp add: key_def programHeartbeat_def)

lemma find_key_cases:
  assumes "map key as = map key bs"
  shows "(find (\<lambda>r. path r = p) as = None \<and> find (\<lambda>r. path r = p) bs = None)
       \<or> (\<exists>r r'. find (\<lambda>r. path r = p) as = Some r \<and> find (\<lambda>r. path r = p) bs = Some r' \<and> key r = key r')"
  using find_key[OF assms, of p]
  by (cases "find (\<lambda>r. path r = p) as"; cases "find (\<lambda>r. path r = p) bs") auto

lemma heartbeatsFor_key:
  assumes "map key as = map key bs"
  shows "heartbeatsFor e as running = heartbeatsFor e bs running"
proof -
  have "(case find (\<lambda>r. path r = p) as of None \<Rightarrow> [] | Some r \<Rightarrow> [programHeartbeat e r p]) =
        (case find (\<lambda>r. path r = p) bs of None \<Rightarrow> [] | Some r \<Rightarrow> [programHeartbeat e r p])" for p
    using find_key_cases[OF assms, of p] by (auto dest: programHeartbeat_key)
  then show ?thesis unfolding heartbeatsFor_def by (simp only:)
qed

lemma detectedFor_key:
  assumes "map key as = map key bs"
  shows "detectedFor as previous running = detectedFor bs previous running"
proof -
  have "(case find (\<lambda>r. path r = p) as of None \<Rightarrow> [] | Some r \<Rightarrow> [m @ name r]) =
        (case find (\<lambda>r. path r = p) bs of None \<Rightarrow> [] | Some r \<Rightarrow> [m @ name r])" for p m
    using find_key_cases[OF assms, of p] by (auto simp: key_def)
  then show ?thesis unfolding detectedFor_def by (simp only:)
qed

lemma stoppedFor_key:
  assumes "map key as = map key bs"
  shows "stoppedFor as previous current = stoppedFor bs previous current"
proof -
  have "(case find (\<lambda>r. path r = p) as of None \<Rightarrow> [] | Some r \<Rightarrow> [m @ name r]) =
        (case find (\<lambda>r. path r = p) bs of None \<Rightarrow> [] | Some r \<Rightarrow> [m @ name r])" for p m
    using find_key_cases[OF assms, of p] by (auto simp: key_def)
  then show ?thesis unfolding stoppedFor_def by (simp only:)
qed

lemma heartbeatsFor_Cons:
  "heartbeatsFor e progs (p # ps) = heartbeatsFor e progs [p] @ heartbeatsFor e progs ps"
  by (simp add: heartbeatsFor_def)

section \<open>The loops of a cycle\<close>

lemma sendHeartbeats_frame:
  "map key (programs (sendHeartbeats e ps s)) = map key (programs s)
   \<and> lastReportedPrograms (sendHeartbeats e ps s) = lastReportedPrograms s
   \<and> timers (sendHeartbeats e ps s) = timers s
   \<and> intervalId (sendHeartbeats e ps s) = intervalId s
   \<and> nextTimer (sendHeartbeats e ps s) = nextTimer s
   \<and> monitoringInterval (sendHeartbeats e ps s) = monitoringInterval s
   \<and> execCount (sendHeartbeats e ps s) = execCount s
   \<and> transitions (sendHeartbeats e ps s) = transitions s"
proof (induction ps arbitrary: s)
  case Nil
  show ?case by simp
next
  case (Cons p ps)
  show ?case
    using Cons.IH[of "updateLastSeen e p (sendProgramHeartbeat e p s)"] by simp
qed

lemma sendHeartbeats_fields [simp]:
  "map key (programs (sendHeartbeats e ps s)) = map key (programs s)"
  "lastReportedPrograms (sendHeartbeats e ps s) = lastReportedPrograms s"
  "timers (sendHeartbeats e ps s) = timers s"
  "intervalId (sendHeartbeats e ps s) = intervalId s"
  "nextTimer (sendHeartbeats e ps s) = nextTimer s"
  "monitoringInterval (sendHeartbeats e ps s) = monitoringInterval s"
  "execCount (sendHeartbeats e ps s) = execCount s"
  "transitions (sendHeartbeats e ps s) = transitions s"
  using sendHeartbeats_frame[of e ps s] by simp_all

lemma sendHeartbeats_sent:
  "sent (sendHeartbeats e ps s) = sent s @ heartbeatsFor e (programs s) ps"
proof (induction ps arbitrary: s)
  case Nil
  show ?case by (simp add: heartbeatsFor_def)
next
  case (Cons p ps)
  let ?s1 = "updateLastSeen e p (sendProgramHeartbeat e p s)"
  have k: "map key (programs ?s1) = map key (programs s)" by simp
  have "sent (sendHeartbeats e (p # ps) s) = sent ?s1 @ heartbeatsFor e (programs ?s1) ps"
    using Cons.IH[of ?s1] by simp
  also have "\<dots> = sent s @ heartbeatsFor e (programs s) [p] @ heartbeatsFor e (programs s) ps"
    by (simp add: sendProgramHeartbeat_sent heartbeatsFor_key[OF k])
  finally show ?case by (simp add: heartbeatsFor_Cons[of e _ p ps])
qed

lemma getProgramByPath_log2 [simp]: "getProgramByPath (log2 m l s) p = getProgramByPath s p"
  by (simp add: getProgramByPath_def)

lemma logDetected_frame:
  "programs (logDetected ps s) = programs s
   \<and> sent (logDetected ps s) = sent s
   \<and> lastReportedPrograms (logDetected ps s) = lastReportedPrograms s
   \<and> timers (logDetected ps s) = timers s
   \<and> intervalId (logDetected ps s) = intervalId s
   \<and> nextTimer (logDetected ps s) = nextTimer s
   \<and> monitoringInterval (logDetected ps s) = monitoringInterval s
   \<and> execCount (logDetected ps s) = execCount s
   \<and> transitions (logDetected ps s) =
        transitions s @ detectedFor (programs s) (lastReportedPrograms s) ps"
proof (induction ps arbitrary: s)
  case Nil
  show ?case by (simp add: detectedFor_def)
next
  case (Cons p ps)
  show ?case
  proof (cases "p \<in> set (lastReportedPrograms s)")
    case True
    then show ?thesis using Cons.IH[of s] by (simp add: detectedFor_def)
  next
    case False
    show ?thesis
    proof (cases "getProgramByPath s p")
      case None
      then show ?thesis using False Cons.IH[of s]
        by (simp add: detectedFor_def getProgramByPath_def)
    next
      case (Some r)
      then show ?thesis
        using False Cons.IH[of "log2 (''Detected enrolled program running: '' @ name r) INFO s"]
        by (simp add: detectedFor_def getProgramByPath_def)
    qed
  qed
qed

lemma logStopped_frame:
  "programs (logStopped ps c s) = programs s
   \<and> sent (logStopped ps c s) = sent s
   \<and> lastReportedPrograms (logStopped ps c s) = lastReportedPrograms s
   \<and> timers (logStopped ps c s) = timers s
   \<and> intervalId (logStopped ps c s) = intervalId s
   \<and> nextTimer (logStopped ps c s) = nextTimer s
   \<and> monitoringInterval (logStopped ps c s) = monitoringInterval s
   \<and> execCount (logStopped ps c s) = execCount s
   \<and> transitions (logStopped ps c s) = transitions s @ stoppedFor (programs s) ps c"
proof (induction ps arbitrary: s)
  case Nil
  show ?case by (simp add: stoppedFor_def)
next
  case (Cons p ps)
  show ?case
  proof (cases "p \<in> set c")
    case True
    then show ?thesis using Cons.IH[of s] by (simp add: stoppedFor_def)
  next
    case False
    show ?thesis
    proof (cases "getProgramByPath s p")
      case None
      then show ?thesis using False Cons.IH[of s]
        by (simp add: stoppedFor_def getProgramByPath_def)
    next
      case (Some r)
      then show ?thesis
        using False Cons.IH[of "log2 (''Enrolled program stopped: '' @ name r) INFO s"]
        by (simp add: stoppedFor_def getProgramByPath_def)
    qed
  qed
qed

text \<open>One cycle, as a function of what the scanner reported.\<close>

lemma checkEnrolledPrograms_cycle:
  assumes "getEnrolledPaths s \<noteq> []"
    and "getRunningEnrolledPrograms e (getEnrolledPaths s) s = (running, s1)"
  shows "lastReportedPrograms (checkEnrolledPrograms e s) = new_Set running"
    and "transitions (checkEnrolledPrograms e s) =
           transitions s @ detectedFor (programs s) (lastReportedPrograms s) running
             @ stoppedFor (programs s) (lastReportedPrograms s) (new_Set running)"
    and "sent (checkEnrolledPrograms e s) = sent s @ heartbeatsFor e (programs s) running"
    and "map key (programs (checkEnrolledPrograms e s)) = map key (programs s)"
    and "timers (checkEnrolledPrograms e s) = timers s"
    and "intervalId (checkEnrolledPrograms e s) = intervalId s"
    and "nextTimer (checkEnrolledPrograms e s) = nextTimer s"
    and "monitoringInterval (checkEnrolledPrograms e s) = monitoringInterval s"
proof -
  have r: "rest s1 = rest s" "transitions s1 = transitions s"
    using getRunningEnrolledPrograms_rest[of e "getEnrolledPaths s" s]
      getRunningEnrolledPrograms_transitions[of e "getEnrolledPaths s" s] assms(2) by simp_all
  note f = rest_fields[OF r(1)]
  let ?c = "new_Set running"
  let ?s2 = "logDetected running s1"
  let ?s3 = "logStopped (lastReportedPrograms ?s2) ?c ?s2"
  let ?s4 = "sendHeartbeats e running ?s3"
  have eq: "checkEnrolledPrograms e s = ?s4\<lparr>lastReportedPrograms := ?c\<rparr>"
    using assms by (simp add: checkEnrolledPrograms_def Let_def)
  note d = logDetected_frame[of running s1]
  note t = logStopped_frame[of "lastReportedPrograms ?s2" ?c ?s2]
  show "lastReportedPrograms (checkEnrolledPrograms e s) = new_Set running"
    by (simp add: eq)
  show "transitions (checkEnrolledPrograms e s) =
           transitions s @ detectedFor (programs s) (lastReportedPrograms s) running
             @ stoppedFor (programs s) (lastReportedPrograms s) (new_Set running)"
    using d t f r(2) by (simp add: eq)
  show "sent (checkEnrolledPrograms e s) = sent s @ heartbeatsFor e (programs s) running"
    using d t f by (simp add: eq sendHeartbeats_sent)
  show "map key (programs (checkEnrolledPrograms e s)) = map key (programs s)"
    using d t f by (simp add: eq)
  show "timers (checkEnrolledPrograms e s) = timers s"
    using d t f by (simp add: eq)
  show "intervalId (checkEnrolledPrograms e s) = intervalId s"
    using d t f by (simp add: eq)
  show "nextTimer (checkEnrolledPrograms e s) = nextTimer s"
    using d t f by (simp add: eq)
  show "monitoringInterval (checkEnrolledPrograms e s) = monitoringInterval s"
    using d t f by (simp add: eq)
qed

section \<open>The polling cycle\<close>

lemma runningNow_two:
  assumes "getEnrolledPaths s = [a, b]"
  shows "runningNow e s = [] \<or> runningNow e s = [a] \<or> runningNow e s = [b] \<or> runningNow e s = [a, b]"
proof -
  obtain r1 s1 where 1: "isProcessRunning e a s = (r1, s1)" by (cases "isProcessRunning e a s")
  obtain r2 s2 where 2: "isProcessRunning e b s1 = (r2, s2)" by (cases "isProcessRunning e b s1")
  show ?thesis using 1 2 assms by (simp add: runningNow_def)
qed

lemma runningNow_split:
  "getRunningEnrolledPrograms e (getEnrolledPaths s) s =
     (runningNow e s, snd (getRunningEnrolledPrograms e (getEnrolledPaths s) s))"
  by (simp add: runningNow_def)

lemma cycle_next:
  assumes "getEnrolledPaths s \<noteq> []"
  shows "lastReportedPrograms (checkEnrolledPrograms e s) = new_Set (runningNow e s)
       \<and> transitions (checkEnrolledPrograms e s) =
           transitions s @ detectedFor (programs s) (lastReportedPrograms s) (runningNow e s)
             @ stoppedFor (programs s) (lastReportedPrograms s) (new_Set (runningNow e s))
       \<and> sent (checkEnrolledPrograms e s) = sent s @ heartbeatsFor e (programs s) (runningNow e s)
       \<and> map key (programs (checkEnrolledPrograms e s)) = map key (programs s)"
  using checkEnrolledPrograms_cycle[OF assms runningNow_split] by simp

lemma getEnrolledPaths_key:
  assumes "map key as = map key bs"
  shows "map path as = map path bs"
proof -
  have "map (\<lambda>k. snd (snd k)) (map key as) = map (\<lambda>k. snd (snd k)) (map key bs)"
    using assms by simp
  then show ?thesis by (simp add: key_def o_def)
qed

lemma two_of_set:
  assumes "as = [] \<or> as = [a] \<or> as = [b] \<or> as = [a, b]" and "a \<noteq> b"
  shows "set as = {a} \<Longrightarrow> as = [a]"
    and "set as = {b} \<Longrightarrow> as = [b]"
    and "set as = {a, b} \<Longrightarrow> as = [a, b]"
  using assms by (elim disjE; simp add: insert_eq_iff doubleton_eq_iff)+

text \<open>
  C1. The registry holds two programs with the paths \<open>A\<close> and \<open>B\<close>, the watcher has
  reported nothing yet, and in three successive cycles the scanner reports \<open>{A}\<close>, then
  \<open>{A, B}\<close>, then \<open>{B}\<close>. Then the first cycle emits the \<^emph>\<open>entered\<close> transition of
  \<open>A\<close> and nothing else, the second that of \<open>B\<close>, the third the \<^emph>\<open>exited\<close>
  transition of \<open>A\<close>; the cycles hand over one heartbeat (for \<open>A\<close>), two heartbeats
  (one for \<open>A\<close>, one for \<open>B\<close>) and one heartbeat (for \<open>B\<close>); and after every cycle
  \<^verbatim>\<open>lastReportedPrograms\<close> is the set that was running in it.
\<close>

theorem polling_three_cycles:
  assumes paths: "getEnrolledPaths s0 = [A, B] \<or> getEnrolledPaths s0 = [B, A]"
    and ne: "A \<noteq> B"
    and pa: "getProgramByPath s0 A = Some pa"
    and pb: "getProgramByPath s0 B = Some pb"
    and last0: "lastReportedPrograms s0 = []"
    and s1: "s1 = checkEnrolledPrograms e1 s0"
    and s2: "s2 = checkEnrolledPrograms e2 s1"
    and s3: "s3 = checkEnrolledPrograms e3 s2"
    and r1: "set (runningNow e1 s0) = {A}"
    and r2: "set (runningNow e2 s1) = {A, B}"
    and r3: "set (runningNow e3 s2) = {B}"
  shows "transitions s1 = transitions s0 @ [''Detected enrolled program running: '' @ name pa]
       \<and> transitions s2 = transitions s1 @ [''Detected enrolled program running: '' @ name pb]
       \<and> transitions s3 = transitions s2 @ [''Enrolled program stopped: '' @ name pa]
       \<and> sent s1 = sent s0 @ [programHeartbeat e1 pa A]
       \<and> (sent s2 = sent s1 @ [programHeartbeat e2 pa A, programHeartbeat e2 pb B]
          \<or> sent s2 = sent s1 @ [programHeartbeat e2 pb B, programHeartbeat e2 pa A])
       \<and> sent s3 = sent s2 @ [programHeartbeat e3 pb B]
       \<and> lastReportedPrograms s1 = runningNow e1 s0 \<and> lastReportedPrograms s1 = [A]
       \<and> lastReportedPrograms s2 = runningNow e2 s1 \<and> set (lastReportedPrograms s2) = {A, B}
       \<and> lastReportedPrograms s3 = runningNow e3 s2 \<and> lastReportedPrograms s3 = [B]"
proof -
  let ?P = "programs s0"
  have fa: "find (\<lambda>r. path r = A) ?P = Some pa" and fb: "find (\<lambda>r. path r = B) ?P = Some pb"
    using pa pb by (simp_all add: getProgramByPath_def)
  have ne0: "getEnrolledPaths s0 \<noteq> []" using paths by auto
  note c1 = cycle_next[OF ne0, of e1, folded s1]
  have k1: "map key (programs s1) = map key ?P" using c1 by simp
  have p1: "getEnrolledPaths s1 = getEnrolledPaths s0"
    using getEnrolledPaths_key[OF k1] by (simp add: getEnrolledPaths_def)
  have ne1: "getEnrolledPaths s1 \<noteq> []" using p1 ne0 by simp
  note c2 = cycle_next[OF ne1, of e2, folded s2]
  have k2: "map key (programs s2) = map key ?P" using c2 k1 by simp
  have p2: "getEnrolledPaths s2 = getEnrolledPaths s0"
    using getEnrolledPaths_key[OF k2] by (simp add: getEnrolledPaths_def)
  have ne2: "getEnrolledPaths s2 \<noteq> []" using p2 ne0 by simp
  note c3 = cycle_next[OF ne2, of e3, folded s3]
  have R1: "runningNow e1 s0 = [A]"
  proof -
    from paths show ?thesis
    proof
      assume "getEnrolledPaths s0 = [A, B]"
      from two_of_set(1)[OF runningNow_two[OF this] ne r1] show ?thesis .
    next
      assume "getEnrolledPaths s0 = [B, A]"
      from two_of_set(2)[OF runningNow_two[OF this] ne[symmetric] r1] show ?thesis .
    qed
  qed
  have R2: "runningNow e2 s1 = [A, B] \<or> runningNow e2 s1 = [B, A]"
  proof -
    from paths show ?thesis
    proof
      assume "getEnrolledPaths s0 = [A, B]"
      then have "getEnrolledPaths s1 = [A, B]" using p1 by simp
      from two_of_set(3)[OF runningNow_two[OF this] ne r2] show ?thesis by simp
    next
      assume "getEnrolledPaths s0 = [B, A]"
      then have q: "getEnrolledPaths s1 = [B, A]" using p1 by simp
      have "set (runningNow e2 s1) = {B, A}" using r2 by auto
      from two_of_set(3)[OF runningNow_two[OF q] ne[symmetric] this] show ?thesis by simp
    qed
  qed
  have R3: "runningNow e3 s2 = [B]"
  proof -
    from paths show ?thesis
    proof
      assume "getEnrolledPaths s0 = [A, B]"
      then have "getEnrolledPaths s2 = [A, B]" using p2 by simp
      from two_of_set(2)[OF runningNow_two[OF this] ne r3] show ?thesis .
    next
      assume "getEnrolledPaths s0 = [B, A]"
      then have "getEnrolledPaths s2 = [B, A]" using p2 by simp
      from two_of_set(1)[OF runningNow_two[OF this] ne[symmetric] r3] show ?thesis .
    qed
  qed
  have L1: "lastReportedPrograms s1 = [A]"
    using c1 R1 by (simp add: new_Set_def Set_add_def)
  have N2: "new_Set (runningNow e2 s1) = runningNow e2 s1"
    using R2 ne by (auto simp: new_Set_def Set_add_def)
  have L2: "lastReportedPrograms s2 = runningNow e2 s1"
    using c2 N2 by simp
  have L2s: "set (lastReportedPrograms s2) = {A, B}"
    using L2 r2 by simp
  have L3: "lastReportedPrograms s3 = [B]"
    using c3 R3 by (simp add: new_Set_def Set_add_def)
  have L3r: "lastReportedPrograms s3 = runningNow e3 s2"
    using L3 R3 by simp
  have L1r: "lastReportedPrograms s1 = runningNow e1 s0"
    using L1 R1 by simp
  have T1: "transitions s1 = transitions s0 @ [''Detected enrolled program running: '' @ name pa]"
    using c1 R1 last0 fa by (simp add: detectedFor_def stoppedFor_def new_Set_def Set_add_def)
  have H1: "sent s1 = sent s0 @ [programHeartbeat e1 pa A]"
    using c1 R1 fa by (simp add: heartbeatsFor_def)
  have C2: "transitions s2 = transitions s1 @ detectedFor ?P [A] (runningNow e2 s1)
              @ stoppedFor ?P [A] (runningNow e2 s1)"
    and D2: "sent s2 = sent s1 @ heartbeatsFor e2 ?P (runningNow e2 s1)"
    using c2 by (simp_all add: detectedFor_key[OF k1] stoppedFor_key[OF k1] heartbeatsFor_key[OF k1] L1 N2)
  have C3: "transitions s3 = transitions s2 @ detectedFor ?P (runningNow e2 s1) [B]
              @ stoppedFor ?P (runningNow e2 s1) [B]"
    and D3: "sent s3 = sent s2 @ heartbeatsFor e3 ?P [B]"
    using c3 by (simp_all add: detectedFor_key[OF k2] stoppedFor_key[OF k2] heartbeatsFor_key[OF k2] L2 R3
                   new_Set_def Set_add_def)
  have T2: "transitions s2 = transitions s1 @ [''Detected enrolled program running: '' @ name pb]"
  proof -
    from R2 show ?thesis
    proof
      assume "runningNow e2 s1 = [A, B]"
      then show ?thesis using C2 fb ne by (simp add: detectedFor_def stoppedFor_def)
    next
      assume "runningNow e2 s1 = [B, A]"
      then show ?thesis using C2 fb ne by (simp add: detectedFor_def stoppedFor_def)
    qed
  qed
  have H2: "sent s2 = sent s1 @ [programHeartbeat e2 pa A, programHeartbeat e2 pb B]
          \<or> sent s2 = sent s1 @ [programHeartbeat e2 pb B, programHeartbeat e2 pa A]"
  proof -
    from R2 show ?thesis
    proof
      assume "runningNow e2 s1 = [A, B]"
      then show ?thesis using D2 fa fb by (simp add: heartbeatsFor_def)
    next
      assume "runningNow e2 s1 = [B, A]"
      then show ?thesis using D2 fa fb by (simp add: heartbeatsFor_def)
    qed
  qed
  have T3: "transitions s3 = transitions s2 @ [''Enrolled program stopped: '' @ name pa]"
  proof -
    from R2 show ?thesis
    proof
      assume "runningNow e2 s1 = [A, B]"
      then show ?thesis using C3 fa ne by (simp add: detectedFor_def stoppedFor_def)
    next
      assume "runningNow e2 s1 = [B, A]"
      then show ?thesis using C3 fa ne by (simp add: detectedFor_def stoppedFor_def)
    qed
  qed
  have H3: "sent s3 = sent s2 @ [programHeartbeat e3 pb B]"
    using D3 fb by (simp add: heartbeatsFor_def)
  show ?thesis
    by (intro conjI) (fact T1 T2 T3 H1 H2 H3 L1r L1 L2 L2s L3r L3)+
qed

section \<open>The sample machine\<close>

lemmas parse_eval = split_def split_from.simps trim_def isSpace_def parsePsLine_def
  split_ws_def parseInt_def digits_value_def is_digit_def digit_value_def List.map_filter_def
  psCode_def psVim_def psBoth_def

lemma sample_parse:
  "List.map_filter parsePsLine (split [CHR 0x0A] (trim psCode)) =
     [\<lparr>pid = Some 101, proc_name = ''code'', command = ''/usr/bin/code --new-window''\<rparr>]"
  "List.map_filter parsePsLine (split [CHR 0x0A] (trim psVim)) =
     [\<lparr>pid = Some 202, proc_name = ''vim'', command = ''/usr/bin/vim notes.txt''\<rparr>]"
  "List.map_filter parsePsLine (split [CHR 0x0A] (trim psBoth)) =
     [\<lparr>pid = Some 101, proc_name = ''code'', command = ''/usr/bin/code --new-window''\<rparr>,
      \<lparr>pid = Some 202, proc_name = ''vim'', command = ''/usr/bin/vim notes.txt''\<rparr>]"
  by (simp_all add: parse_eval)

lemmas match_eval = runningNow_def isProcessRunning_def getRunningProcesses_def
  getLinuxProcesses_def exec_def processMatches_def
  basename_def posix_basename_def removeExt_def ext_matches_def sampleEnv_def sample_parse

lemma sample_running:
  assumes "getEnrolledPaths s = [''/usr/bin/code'', ''/usr/bin/vim'']"
  shows "runningNow (sampleEnv psCode) s = [''/usr/bin/code'']"
    and "runningNow (sampleEnv psBoth) s = [''/usr/bin/code'', ''/usr/bin/vim'']"
    and "runningNow (sampleEnv psVim) s = [''/usr/bin/vim'']"
  using assms by (simp_all add: match_eval)

lemma sample_paths:
  "getEnrolledPaths sampleState = [''/usr/bin/code'', ''/usr/bin/vim'']"
  "getEnrolledPaths sampleCycle1 = [''/usr/bin/code'', ''/usr/bin/vim'']"
  "getEnrolledPaths sampleCycle2 = [''/usr/bin/code'', ''/usr/bin/vim'']"
proof -
  show 0: "getEnrolledPaths sampleState = [''/usr/bin/code'', ''/usr/bin/vim'']"
    by (simp add: getEnrolledPaths_def sampleState_def sampleCode_def sampleVim_def)
  have "map key (programs sampleCycle1) = map key (programs sampleState)"
    unfolding sampleCycle1_def using cycle_next[of sampleState] 0 by simp
  from getEnrolledPaths_key[OF this]
  show 1: "getEnrolledPaths sampleCycle1 = [''/usr/bin/code'', ''/usr/bin/vim'']"
    using 0 by (simp add: getEnrolledPaths_def)
  have "map key (programs sampleCycle2) = map key (programs sampleCycle1)"
    unfolding sampleCycle2_def using cycle_next[of sampleCycle1] 1 by simp
  from getEnrolledPaths_key[OF this]
  show "getEnrolledPaths sampleCycle2 = [''/usr/bin/code'', ''/usr/bin/vim'']"
    using 1 by (simp add: getEnrolledPaths_def)
qed

theorem polling_three_cycles_witness:
  "getEnrolledPaths sampleState = [''/usr/bin/code'', ''/usr/bin/vim'']
   \<and> lastReportedPrograms sampleState = []
   \<and> set (runningNow (sampleEnv psCode) sampleState) = {''/usr/bin/code''}
   \<and> set (runningNow (sampleEnv psBoth) sampleCycle1) = {''/usr/bin/code'', ''/usr/bin/vim''}
   \<and> set (runningNow (sampleEnv psVim) sampleCycle2) = {''/usr/bin/vim''}
   \<and> transitions sampleCycle1 = [''Detected enrolled program running: code'']
   \<and> transitions sampleCycle2 = transitions sampleCycle1 @ [''Detected enrolled program running: vim'']
   \<and> transitions sampleCycle3 = transitions sampleCycle2 @ [''Enrolled program stopped: code'']
   \<and> length (sent sampleCycle1) = 1
   \<and> length (sent sampleCycle2) = 3
   \<and> length (sent sampleCycle3) = 4
   \<and> lastReportedPrograms sampleCycle1 = [''/usr/bin/code'']
   \<and> lastReportedPrograms sampleCycle2 = [''/usr/bin/code'', ''/usr/bin/vim'']
   \<and> lastReportedPrograms sampleCycle3 = [''/usr/bin/vim'']"
proof -
  let ?A = "''/usr/bin/code''" and ?B = "''/usr/bin/vim''"
  have paths: "getEnrolledPaths sampleState = [?A, ?B] \<or> getEnrolledPaths sampleState = [?B, ?A]"
    by (simp add: sample_paths)
  have ne: "?A \<noteq> ?B" by simp
  have pa: "getProgramByPath sampleState ?A = Some sampleCode"
    and pb: "getProgramByPath sampleState ?B = Some sampleVim"
    by (simp_all add: getProgramByPath_def sampleState_def sampleCode_def sampleVim_def)
  have last0: "lastReportedPrograms sampleState = []" by (simp add: sampleState_def)
  have r1: "set (runningNow (sampleEnv psCode) sampleState) = {?A}"
    by (simp add: sample_running(1)[OF sample_paths(1)])
  have r2: "set (runningNow (sampleEnv psBoth) sampleCycle1) = {?A, ?B}"
    by (simp add: sample_running(2)[OF sample_paths(2)])
  have r3: "set (runningNow (sampleEnv psVim) sampleCycle2) = {?B}"
    by (simp add: sample_running(3)[OF sample_paths(3)])
  note t = polling_three_cycles[OF paths ne pa pb last0 sampleCycle1_def sampleCycle2_def
      sampleCycle3_def r1 r2 r3]
  have n: "name sampleCode = ''code''" "name sampleVim = ''vim''"
    by (simp_all add: sampleCode_def sampleVim_def)
  have tr0: "transitions sampleState = []" "sent sampleState = []"
    by (simp_all add: transitions_def sampleState_def)
  from t have h1: "sent sampleCycle1 = sent sampleState @ [programHeartbeat (sampleEnv psCode) sampleCode ?A]"
    by (elim conjE)
  from t have h2: "sent sampleCycle2 = sent sampleCycle1 @ [programHeartbeat (sampleEnv psBoth) sampleCode ?A, programHeartbeat (sampleEnv psBoth) sampleVim ?B]
          \<or> sent sampleCycle2 = sent sampleCycle1 @ [programHeartbeat (sampleEnv psBoth) sampleVim ?B, programHeartbeat (sampleEnv psBoth) sampleCode ?A]"
    by (elim conjE)
  from t have h3: "sent sampleCycle3 = sent sampleCycle2 @ [programHeartbeat (sampleEnv psVim) sampleVim ?B]"
    by (elim conjE)
  from t have t1: "transitions sampleCycle1 = transitions sampleState @ [''Detected enrolled program running: '' @ name sampleCode]"
    by (elim conjE)
  from t have t2: "transitions sampleCycle2 = transitions sampleCycle1 @ [''Detected enrolled program running: '' @ name sampleVim]"
    by (elim conjE)
  from t have t3: "transitions sampleCycle3 = transitions sampleCycle2 @ [''Enrolled program stopped: '' @ name sampleCode]"
    by (elim conjE)
  from t have L1: "lastReportedPrograms sampleCycle1 = [?A]"
    by (elim conjE)
  from t have L2r: "lastReportedPrograms sampleCycle2 = runningNow (sampleEnv psBoth) sampleCycle1"
    by (elim conjE)
  from t have L3: "lastReportedPrograms sampleCycle3 = [?B]"
    by (elim conjE)
  have l1: "length (sent sampleCycle1) = 1" using h1 tr0 by simp
  have l2: "length (sent sampleCycle2) = 3"
    using h2 by (rule disjE) (simp_all add: l1)
  have l3: "length (sent sampleCycle3) = 4" using h3 l2 by simp
  have L2: "lastReportedPrograms sampleCycle2 = [?A, ?B]"
    using L2r sample_running(2)[OF sample_paths(2)] by simp
  have T1: "transitions sampleCycle1 = [''Detected enrolled program running: code'']"
    using t1 n tr0 by simp
  have T2: "transitions sampleCycle2 = transitions sampleCycle1 @ [''Detected enrolled program running: vim'']"
    using t2 n by simp
  have T3: "transitions sampleCycle3 = transitions sampleCycle2 @ [''Enrolled program stopped: code'']"
    using t3 n by simp
  show ?thesis
    by (intro conjI) (fact sample_paths(1) last0 r1 r2 r3 T1 T2 T3 l1 l2 l3 L1 L2 L3)+
qed

section \<open>Heartbeats of the polling watcher\<close>









section \<open>An empty registry\<close>

text \<open>
  C7. When no path is enrolled at the start of a cycle, the cycle does nothing: the state
  after it is the state before it, so no command was run, nothing was logged, no heartbeat
  was handed over, and \<^verbatim>\<open>lastReportedPrograms\<close> is what it was.
\<close>

theorem checkEnrolledPrograms_empty_registry:
  assumes "getEnrolledPaths s = []"
  shows "checkEnrolledPrograms e s = s
       \<and> execCount (checkEnrolledPrograms e s) = execCount s
       \<and> logging (checkEnrolledPrograms e s) = logging s
       \<and> sent (checkEnrolledPrograms e s) = sent s
       \<and> lastReportedPrograms (checkEnrolledPrograms e s) = lastReportedPrograms s"
  using assms by (simp add: checkEnrolledPrograms_def)

theorem checkEnrolledPrograms_empty_registry_witness:
  "getEnrolledPaths sampleEmptied = []
   \<and> checkEnrolledPrograms (sampleEnv psVim) sampleEmptied = sampleEmptied
   \<and> execCount (checkEnrolledPrograms (sampleEnv psVim) sampleEmptied) = 0
   \<and> logging (checkEnrolledPrograms (sampleEnv psVim) sampleEmptied) = []
   \<and> sent (checkEnrolledPrograms (sampleEnv psVim) sampleEmptied) = []
   \<and> lastReportedPrograms (checkEnrolledPrograms (sampleEnv psVim) sampleEmptied) = [''/usr/bin/vim'']"
proof -
  have 0: "getEnrolledPaths sampleEmptied = []"
    by (simp add: getEnrolledPaths_def sampleEmptied_def)
  from checkEnrolledPrograms_empty_registry[OF 0, of "sampleEnv psVim"] 0 show ?thesis
    by (simp add: sampleEmptied_def sampleState_def)
qed

section \<open>Focus events of the window watcher\<close>

text \<open>
  C9. A focus event whose process id is that of the tracked window changes nothing: the
  watcher after it is the watcher before it (the tracked window, the keyboard listener and
  the log included), whatever the registry holds, so the enrollment of the window's path
  plays no part.
\<close>

theorem onActiveWindow_same_process:
  assumes "activeWindow w = Some a" and "processId (info a) = processId (info wi)"
  shows "onActiveWindow s wi w = w
       \<and> activeWindow (onActiveWindow s wi w) = Some a
       \<and> isWatchingForKeyboardEvents (onActiveWindow s wi w) = isWatchingForKeyboardEvents w
       \<and> gkl (onActiveWindow s wi w) = gkl w
       \<and> logged (onActiveWindow s wi w) = logged w
       \<and> onActiveWindow s' wi w = onActiveWindow s wi w"
  using assms by (simp add: onActiveWindow_def)

theorem onActiveWindow_same_process_witness:
  "activeWindow sampleWatcher = Some (sampleWindow ''a.ts'')
   \<and> processId (info (sampleWindow ''a.ts'')) = processId (info (sampleWindow ''b.ts''))
   \<and> onActiveWindow sampleState (sampleWindow ''b.ts'') sampleWatcher = sampleWatcher
   \<and> activeWindow (onActiveWindow sampleState (sampleWindow ''b.ts'') sampleWatcher) = Some (sampleWindow ''a.ts'')
   \<and> gkl (onActiveWindow sampleState (sampleWindow ''b.ts'') sampleWatcher) = [AddListener]
   \<and> onActiveWindow sampleEmptied (sampleWindow ''b.ts'') sampleWatcher
       = onActiveWindow sampleState (sampleWindow ''b.ts'') sampleWatcher"
proof -
  have 1: "activeWindow sampleWatcher = Some (sampleWindow ''a.ts'')"
    by (simp add: sampleWatcher_def)
  have 2: "processId (info (sampleWindow ''a.ts'')) = processId (info (sampleWindow ''b.ts''))"
    by (simp add: sampleWindow_def)
  from onActiveWindow_same_process[OF 1 2, of sampleState sampleEmptied] 1 2 show ?thesis
    by (simp add: sampleWatcher_def)
qed

section \<open>Starting and stopping the polling watcher\<close>

lemma checkEnrolledPrograms_timer:
  "timers (checkEnrolledPrograms e s) = timers s"
  "intervalId (checkEnrolledPrograms e s) = intervalId s"
  "nextTimer (checkEnrolledPrograms e s) = nextTimer s"
  "monitoringInterval (checkEnrolledPrograms e s) = monitoringInterval s"
proof -
  have "timers (checkEnrolledPrograms e s) = timers s
      \<and> intervalId (checkEnrolledPrograms e s) = intervalId s
      \<and> nextTimer (checkEnrolledPrograms e s) = nextTimer s
      \<and> monitoringInterval (checkEnrolledPrograms e s) = monitoringInterval s"
  proof (cases "getEnrolledPaths s = []")
    case True
    then show ?thesis by (simp add: checkEnrolledPrograms_def)
  next
    case False
    from checkEnrolledPrograms_cycle(5-8)[OF False runningNow_split, of e] show ?thesis by simp
  qed
  then show "timers (checkEnrolledPrograms e s) = timers s"
    "intervalId (checkEnrolledPrograms e s) = intervalId s"
    "nextTimer (checkEnrolledPrograms e s) = nextTimer s"
    "monitoringInterval (checkEnrolledPrograms e s) = monitoringInterval s" by simp_all
qed

lemma loadPrograms_timer:
  "timers (loadPrograms s) = timers s"
  "intervalId (loadPrograms s) = intervalId s"
  "nextTimer (loadPrograms s) = nextTimer s"
  by (simp_all add: loadPrograms_def loadFailed_def split: option.splits sum.splits)

lemma timer_ok_newState: "timer_ok (newState file dir fs werr)"
  by (simp add: timer_ok_def newState_def loadPrograms_timer)

lemma not_running_newState: "intervalId (newState file dir fs werr) = None"
  by (simp add: newState_def loadPrograms_timer)

lemma stop_fields:
  "timer_ok s \<Longrightarrow> timers (stop s) = []"
  "intervalId (stop s) = None"
  "nextTimer (stop s) = nextTimer s"
  "monitoringInterval (stop s) = monitoringInterval s"
  by (auto simp: stop_def clearInterval_def timer_ok_def split: option.splits)

lemma timer_ok_stop: "timer_ok s \<Longrightarrow> timer_ok (stop s)"
  by (simp add: timer_ok_def stop_fields)

lemma stop_not_running: "intervalId s = None \<Longrightarrow> stop s = s"
  by (simp add: stop_def)

lemma start_stop: "start e s = start e (stop s)"
  by (cases "intervalId s") (simp_all add: stop_not_running start_def[of e s] start_def[of e "stop s"] stop_fields)

lemma start_fields:
  assumes "timer_ok s"
  shows "timers (start e s) = [(nextTimer s, monitoringInterval s)]"
    and "intervalId (start e s) = Some (nextTimer s)"
    and "nextTimer (start e s) = Suc (nextTimer s)"
proof -
  let ?s1 = "if intervalId s \<noteq> None then stop s else s"
  have 1: "timers ?s1 = []" "nextTimer ?s1 = nextTimer s" "monitoringInterval ?s1 = monitoringInterval s"
    using assms by (auto simp: stop_fields timer_ok_def)
  show "timers (start e s) = [(nextTimer s, monitoringInterval s)]"
    and "intervalId (start e s) = Some (nextTimer s)"
    and "nextTimer (start e s) = Suc (nextTimer s)"
    using 1 by (simp_all add: start_def Let_def setInterval_def checkEnrolledPrograms_timer)
qed

lemma timer_ok_start: "timer_ok s \<Longrightarrow> timer_ok (start e s)"
  by (simp add: timer_ok_def start_fields)

lemma timer_ok_setMonitoringInterval: "timer_ok s \<Longrightarrow> timer_ok (setMonitoringInterval e ms s)"
proof -
  assume a: "timer_ok s"
  have b: "timer_ok (s\<lparr>monitoringInterval := ms\<rparr>)"
    using a by (simp add: timer_ok_def split: option.splits)
  show ?thesis
    using b timer_ok_start[OF timer_ok_stop[OF b]]
    by (simp add: setMonitoringInterval_def Let_def)
qed

lemma timer_ok_perform: "timer_ok s \<Longrightarrow> timer_ok (perform c s)"
  by (cases c)
     (simp_all add: timer_ok_start timer_ok_stop timer_ok_setMonitoringInterval,
      simp add: timer_ok_def checkEnrolledPrograms_timer split: option.splits)

lemma timer_ok_performAll: "timer_ok s \<Longrightarrow> timer_ok (performAll calls s)"
  unfolding performAll_def
  by (induction calls arbitrary: s) (simp_all add: timer_ok_perform)

lemma timer_ok_length: "timer_ok s \<Longrightarrow> length (timers s) \<le> 1"
proof -
  assume "timer_ok s"
  then have "length (map fst (timers s)) \<le> 1"
    by (cases "intervalId s") (simp_all add: timer_ok_def)
  then show ?thesis by simp
qed

text \<open>
  C8. Let the watcher be in any state that calls of \<^verbatim>\<open>start\<close>, \<^verbatim>\<open>stop\<close> and
  \<^verbatim>\<open>setMonitoringInterval\<close> and firings of the timer lead to from its construction.
  Then \<^verbatim>\<open>stop\<close> leaves it not running with no active timer, a second \<^verbatim>\<open>stop\<close>
  changes nothing, and \<^verbatim>\<open>stop\<close> before any \<^verbatim>\<open>start\<close> changes nothing at all.
  \<^verbatim>\<open>start\<close> does what \<^verbatim>\<open>stop\<close> followed by \<^verbatim>\<open>start\<close> does: afterwards the
  watcher runs, and the only active timer is one with a new handle, which is not the handle
  held before. At most one timer is ever active. No call has an error result.
\<close>

theorem start_stop_idempotent:
  "let s0 = newState file dir fs werr; s = performAll calls s0 in
     \<not> isRunning s0 \<and> stop s0 = s0
     \<and> \<not> isRunning (stop s) \<and> timers (stop s) = [] \<and> stop (stop s) = stop s
     \<and> length (timers s) \<le> 1
     \<and> start e s = start e (stop s)
     \<and> isRunning (start e s)
     \<and> map fst (timers (start e s)) = [nextTimer s]
     \<and> intervalId (start e s) = Some (nextTimer s)
     \<and> intervalId s \<noteq> Some (nextTimer s)"
proof -
  define s0 where "s0 = newState file dir fs werr"
  define s where "s = performAll calls s0"
  have ok0: "timer_ok s0" by (simp add: s0_def timer_ok_newState)
  have ok: "timer_ok s" by (simp add: s_def timer_ok_performAll ok0)
  have n0: "intervalId s0 = None" by (simp add: s0_def not_running_newState)
  have 1: "\<not> isRunning s0" by (simp add: isRunning_def n0)
  have 2: "stop s0 = s0" by (simp add: stop_not_running n0)
  have 3: "\<not> isRunning (stop s)" by (simp add: isRunning_def stop_fields)
  have 4: "timers (stop s) = []" by (simp add: stop_fields ok)
  have 5: "stop (stop s) = stop s" by (simp add: stop_not_running stop_fields)
  have 6: "length (timers s) \<le> 1" by (rule timer_ok_length[OF ok])
  have 7: "start e s = start e (stop s)" by (rule start_stop)
  have 8: "isRunning (start e s)" by (simp add: isRunning_def start_fields[OF ok])
  have 9: "map fst (timers (start e s)) = [nextTimer s]" by (simp add: start_fields[OF ok])
  have 10: "intervalId (start e s) = Some (nextTimer s)" by (simp add: start_fields[OF ok])
  have 11: "intervalId s \<noteq> Some (nextTimer s)"
    using ok by (cases "intervalId s") (simp_all add: timer_ok_def)
  show ?thesis
    unfolding Let_def s0_def[symmetric] s_def[symmetric]
    by (intro conjI) (fact 1 2 3 4 5 6 7 8 9 10 11)+
qed

section \<open>The registry: removing a program\<close>






section \<open>The registry: enrolling a program\<close>

lemma isProgramEnrolled_append:
  "isProgramEnrolled (s\<lparr>programs := programs s @ [r]\<rparr>) p \<longleftrightarrow> isProgramEnrolled s p \<or> path r = p"
  by (auto simp: isProgramEnrolled_def list_ex_iff)


lemma enrollProgram_success:
  fixes e :: env
  assumes "existsSync s p" and "\<not> isProgramEnrolled s p"
  defines "r \<equiv> \<lparr>id' = toString_radix 36 (dateNow e (clockReads s)) @ drop 2 (random36 e (randomDraws s)),
                  name = basename (platform e) p, path = p,
                  enrolledAt = toISOString e (dateNow e (Suc (clockReads s))), lastSeen = None\<rparr>"
  shows "fst (enrollProgram e p s) = Some r"
    and "programs (snd (enrollProgram e p s)) = programs s @ [r]"
    and "writeError s = None \<Longrightarrow>
           nodes (snd (enrollProgram e p s)) (dataFilePath s) = Some (File (Programs (programs s @ [r])))"
  using assms(1,2)
  by (simp_all add: enrollProgram_def generateId_def Let_def r_def savePrograms_nodes)








section \<open>The registry: loading\<close>

lemma newState_parsed:
  assumes "fs dfile = Some (File (Programs ps))"
  shows "newState dfile dir fs werr =
     savePrograms
       \<lparr>dataFilePath = dfile, dataDir = dir,
        programs = filter (\<lambda>r. fs (path r) \<noteq> None) ps,
        intervalId = None, monitoringInterval = 60000, lastReportedPrograms = [],
        nodes = fs, writeError = werr,
        logging = map removalMessage (filter (\<lambda>r. fs (path r) = None) ps),
        sent = [], timers = [], nextTimer = 0, execCount = 0, clockReads = 0, randomDraws = 0\<rparr>"
  using assms by (simp add: newState_def loadPrograms_def existsSync_def readPrograms_def)

lemma newState_unreadable:
  assumes "fs dfile \<noteq> None" and "\<forall>ps. fs dfile \<noteq> Some (File (Programs ps))"
  shows "programs (newState dfile dir fs werr) = []"
    and "nodes (newState dfile dir fs werr) = fs"
    and "\<exists>err. logging (newState dfile dir fs werr)
           = [(''Failed to load enrolled programs: '' @ err, Some ERROR, True)]"
  using assms
  by (auto simp: newState_def loadPrograms_def existsSync_def readPrograms_def loadFailed_def
        log3_def split: option.splits node.splits file_content.splits)

lemma newState_absent:
  assumes "fs dfile = None"
  shows "programs (newState dfile dir fs werr) = []"
  using assms
  by (simp add: newState_def loadPrograms_def existsSync_def loadFailed_def split: option.splits)





section \<open>Detection on Windows\<close>

lemma parseTasklistLine_command:
  "parseTasklistLine line = Some proc \<Longrightarrow> command proc = proc_name proc"
  by (auto simp: parseTasklistLine_def Let_def split: if_splits)

lemma map_filter_member:
  "a \<in> set (List.map_filter f as) \<Longrightarrow> \<exists>b \<in> set as. f b = Some a"
  by (auto simp: List.map_filter_def)

lemma getRunningProcesses_win32:
  assumes "platform e = ''win32''" and "proc \<in> set (fst (getRunningProcesses e s))"
  shows "command proc = proc_name proc"
proof -
  from assms obtain stdout where
    "proc \<in> set (List.map_filter parseTasklistLine (split [CHR 0x0A] (trim stdout)))"
    by (auto simp: getRunningProcesses_def getWindowsProcesses_def exec_def split: sum.splits)
  from map_filter_member[OF this] obtain line where "parseTasklistLine line = Some proc" by blast
  then show ?thesis by (rule parseTasklistLine_command)
qed

lemma win32_basename_plain:
  assumes "\<forall>c \<in> set p. c \<noteq> CHR ''/'' \<and> c \<noteq> CHR 0x5C \<and> c \<noteq> CHR '':''"
  shows "win32_basename p = p"
proof -
  have nosep: "\<forall>c \<in> set p. \<not> isPathSeparator c" using assms by (simp add: isPathSeparator_def)
  have start: "\<not> (2 \<le> length p \<and> isWindowsDeviceRoot (p ! 0) \<and> p ! 1 = CHR '':'')"
  proof
    assume "2 \<le> length p \<and> isWindowsDeviceRoot (p ! 0) \<and> p ! 1 = CHR '':''"
    then have "1 < length p" "p ! 1 = CHR '':''" by simp_all
    then have "CHR '':'' \<in> set p" by (metis nth_mem)
    with assms show False by blast
  qed
  have d: "dropWhile isPathSeparator (rev p) = rev p"
    using nosep by (cases "rev p") (auto simp: dropWhile_eq_self_iff)
  have t: "takeWhile (\<lambda>c. \<not> isPathSeparator c) (rev p) = rev p"
    using nosep by (simp add: takeWhile_eq_all_conv)
  have "(if 2 \<le> length p \<and> isWindowsDeviceRoot (p ! 0) \<and> p ! 1 = CHR '':'' then 2 else 0) = (0::nat)"
    using start by (simp only: if_False)
  then have "win32_basename p = rev (takeWhile (\<lambda>c. \<not> isPathSeparator c) (dropWhile isPathSeparator (rev p)))"
    by (simp only: win32_basename_def Let_def drop_0)
  then show ?thesis by (simp only: d t rev_rev_ident)
qed

lemma includes_str_subset: "includes_str hay n \<Longrightarrow> set n \<subseteq> set hay"
  by (auto simp: includes_str_iff)

lemma windowsFileName_chars:
  "windowsFileName n \<Longrightarrow> c \<in> set n \<Longrightarrow> c \<noteq> CHR ''/'' \<and> c \<noteq> CHR 0x5C \<and> c \<noteq> CHR '':''"
  by (auto simp: windowsFileName_def list_all_iff)

lemma not_included_in_file_name:
  assumes "windowsFileName n" and "win32_basename p \<noteq> p"
  shows "\<not> includes_str n p"
proof
  assume "includes_str n p"
  then have "set p \<subseteq> set n" by (rule includes_str_subset)
  then have "\<forall>c \<in> set p. c \<noteq> CHR ''/'' \<and> c \<noteq> CHR 0x5C \<and> c \<noteq> CHR '':''"
    using windowsFileName_chars[OF assms(1)] by blast
  from win32_basename_plain[OF this] assms(2) show False by simp
qed

text \<open>
  C10. On Windows every process that the scanner returns has its command line equal to its
  short name. The short names being Windows file names, for an executable path that is not
  its own basename no command line contains the path, and \<^verbatim>\<open>isProcessRunning\<close> is
  true exactly when some process has a short name equal to the basename, or equal to it
  once the extension is removed from both.
\<close>

theorem windows_detection_by_name_only:
  assumes "platform e = ''win32''"
  shows "(\<forall>proc \<in> set (fst (getRunningProcesses e s)). command proc = proc_name proc)
       \<and> ((\<forall>proc \<in> set (fst (getRunningProcesses e s)). windowsFileName (proc_name proc))
            \<and> basename (platform e) p \<noteq> p \<longrightarrow>
          (\<forall>proc \<in> set (fst (getRunningProcesses e s)). \<not> includes_str (command proc) p)
          \<and> (fst (isProcessRunning e p s) \<longleftrightarrow>
               (\<exists>proc \<in> set (fst (getRunningProcesses e s)).
                  proc_name proc = basename (platform e) p
                  \<or> removeExt (proc_name proc) = removeExt (basename (platform e) p))))"
proof (intro conjI impI)
  show c: "\<forall>proc \<in> set (fst (getRunningProcesses e s)). command proc = proc_name proc"
    using getRunningProcesses_win32[OF assms] by blast
  assume h: "(\<forall>proc \<in> set (fst (getRunningProcesses e s)). windowsFileName (proc_name proc))
            \<and> basename (platform e) p \<noteq> p"
  then have b: "win32_basename p \<noteq> p" using assms by (simp add: basename_def)
  show n: "\<forall>proc \<in> set (fst (getRunningProcesses e s)). \<not> includes_str (command proc) p"
    using c h not_included_in_file_name[OF _ b] by auto
  show "fst (isProcessRunning e p s) \<longleftrightarrow>
               (\<exists>proc \<in> set (fst (getRunningProcesses e s)).
                  proc_name proc = basename (platform e) p
                  \<or> removeExt (proc_name proc) = removeExt (basename (platform e) p))"
    using n by (cases "getRunningProcesses e s")
      (auto simp: isProcessRunning_def processMatches_def list_ex_iff)
qed


lemma windows_parse:
  "fst (getRunningProcesses windowsEnv s) =
     [\<lparr>pid = Some 812, proc_name = ''explorer.exe'', command = ''explorer.exe''\<rparr>,
      \<lparr>pid = Some 4242, proc_name = ''Code.exe'', command = ''Code.exe''\<rparr>]"
  by (simp add: getRunningProcesses_def getWindowsProcesses_def exec_def windowsEnv_def
        sampleTasklist_def tasklistLine_def parseTasklistLine_def split_def split_from.simps
        trim_def isSpace_def parseInt_def digits_value_def is_digit_def digit_value_def
        List.map_filter_def)

lemma windows_basename: "basename (platform windowsEnv) windowsCodePath = ''Code.exe''"
  by (simp add: basename_def windowsEnv_def win32_basename_def windowsCodePath_def
        isWindowsDeviceRoot_def isPathSeparator_def)

theorem windows_detection_by_name_only_witness:
  "platform windowsEnv = ''win32''
   \<and> map proc_name (fst (getRunningProcesses windowsEnv sampleState)) = [''explorer.exe'', ''Code.exe'']
   \<and> map command (fst (getRunningProcesses windowsEnv sampleState)) = [''explorer.exe'', ''Code.exe'']
   \<and> windowsFileName ''explorer.exe'' \<and> windowsFileName ''Code.exe''
   \<and> basename (platform windowsEnv) windowsCodePath = ''Code.exe''
   \<and> windowsCodePath \<noteq> ''Code.exe''
   \<and> list_all (\<lambda>proc. \<not> includes_str (command proc) windowsCodePath)
         (fst (getRunningProcesses windowsEnv sampleState))
   \<and> fst (isProcessRunning windowsEnv windowsCodePath sampleState)"
proof -
  let ?ps = "fst (getRunningProcesses windowsEnv sampleState)"
  have w: "platform windowsEnv = ''win32''" by (simp add: windowsEnv_def)
  have f: "windowsFileName ''explorer.exe''" "windowsFileName ''Code.exe''"
    by (simp_all add: windowsFileName_def)
  have ne: "windowsCodePath \<noteq> ''Code.exe''" by (simp add: windowsCodePath_def)
  have h: "(\<forall>proc \<in> set ?ps. windowsFileName (proc_name proc))
            \<and> basename (platform windowsEnv) windowsCodePath \<noteq> windowsCodePath"
    using f ne by (simp add: windows_parse windows_basename)
  note t = windows_detection_by_name_only[OF w, of sampleState windowsCodePath]
  from t h have n: "\<forall>proc \<in> set ?ps. \<not> includes_str (command proc) windowsCodePath"
    and r: "fst (isProcessRunning windowsEnv windowsCodePath sampleState) \<longleftrightarrow>
               (\<exists>proc \<in> set ?ps.
                  proc_name proc = basename (platform windowsEnv) windowsCodePath
                  \<or> removeExt (proc_name proc) = removeExt (basename (platform windowsEnv) windowsCodePath))"
    by blast+
  have "\<exists>proc \<in> set ?ps. proc_name proc = basename (platform windowsEnv) windowsCodePath
                  \<or> removeExt (proc_name proc) = removeExt (basename (platform windowsEnv) windowsCodePath)"
    by (simp add: windows_parse windows_basename)
  with r have run: "fst (isProcessRunning windowsEnv windowsCodePath sampleState)" by blast
  have la: "list_all (\<lambda>proc. \<not> includes_str (command proc) windowsCodePath) ?ps"
    using n by (simp only: list_all_iff)
  have m1: "map proc_name ?ps = [''explorer.exe'', ''Code.exe'']"
    and m2: "map command ?ps = [''explorer.exe'', ''Code.exe'']"
    by (simp_all add: windows_parse)
  show ?thesis
    by (intro conjI) (fact w m1 m2 f windows_basename ne la run)+
qed

section \<open>The registry keeps its paths unique\<close>

text \<open>
  The paths of the registry are pairwise different after construction from a data file
  whose paths are, and every operation keeps them so. This is the invariant that the
  removal of a program relies on.
\<close>

lemma distinct_paths_newState:
  assumes "\<And>ps. fs dfile = Some (File (Programs ps)) \<Longrightarrow> distinct (map path ps)"
  shows "distinct (getEnrolledPaths (newState dfile dir fs werr))"
proof (cases "fs dfile = None")
  case True
  then show ?thesis
    by (simp add: getEnrolledPaths_def newState_absent[where fs=fs and dfile=dfile])
next
  case False
  show ?thesis
  proof (cases "\<exists>ps. fs dfile = Some (File (Programs ps))")
    case True
    then obtain ps where ps: "fs dfile = Some (File (Programs ps))" by blast
    from assms[OF ps] show ?thesis
      by (simp add: getEnrolledPaths_def newState_parsed[where fs=fs and dfile=dfile, OF ps]
            distinct_map_filter)
  next
    case bad: False
    then have "\<forall>ps. fs dfile \<noteq> Some (File (Programs ps))" by simp
    from newState_unreadable(1)[where fs=fs and dfile=dfile, OF False this]
    show ?thesis by (simp add: getEnrolledPaths_def)
  qed
qed

lemma distinct_paths_enrollProgram:
  assumes "distinct (getEnrolledPaths s)"
  shows "distinct (getEnrolledPaths (snd (enrollProgram e p s)))"
proof (cases "existsSync s p \<and> \<not> isProgramEnrolled s p")
  case True
  then have x: "existsSync s p" and n: "\<not> isProgramEnrolled s p" by simp_all
  from n have "p \<notin> set (map path (programs s))" by (auto simp: isProgramEnrolled_def list_ex_iff)
  then show ?thesis
    using assms by (simp add: getEnrolledPaths_def enrollProgram_success(2)[OF x n])
next
  case False
  then show ?thesis
    using assms by (auto simp: getEnrolledPaths_def enrollProgram_def enrollFailed_def)
qed

lemma distinct_map_remove_nth:
  "distinct (map f as) \<Longrightarrow> distinct (map f (take k as @ drop (Suc k) as))"
proof (induction as arbitrary: k)
  case Nil
  show ?case by simp
next
  case (Cons a as)
  show ?case
  proof (cases k)
    case 0
    with Cons.prems show ?thesis by simp
  next
    case (Suc j)
    have "set (take j as @ drop (Suc j) as) \<subseteq> set as"
      using set_take_subset[of j as] set_drop_subset[of "Suc j" as] by auto
    then have "f a \<notin> f ` set (take j as @ drop (Suc j) as)" using Cons.prems by auto
    then show ?thesis using Suc Cons.IH[of j] Cons.prems by (simp add: image_Un)
  qed
qed

lemma distinct_paths_removeProgram:
  assumes "distinct (getEnrolledPaths s)"
  shows "distinct (getEnrolledPaths (snd (removeProgram i s)))"
proof (cases "findIndex (\<lambda>p. id' p = i) (programs s)")
  case None
  then show ?thesis using assms by (simp add: removeProgram_def)
next
  case (Some k)
  have "distinct (map path (take k (programs s) @ drop (Suc k) (programs s)))"
    using assms by (simp only: getEnrolledPaths_def distinct_map_remove_nth)
  then show ?thesis using Some by (simp add: getEnrolledPaths_def removeProgram_def Let_def)
qed

lemma distinct_paths_cycle:
  assumes "distinct (getEnrolledPaths s)"
  shows "distinct (getEnrolledPaths (checkEnrolledPrograms e s))"
proof (cases "getEnrolledPaths s = []")
  case True
  then show ?thesis using assms by (simp add: checkEnrolledPrograms_def)
next
  case False
  from cycle_next[OF False, of e]
  have "map key (programs (checkEnrolledPrograms e s)) = map key (programs s)" by simp
  from getEnrolledPaths_key[OF this] show ?thesis using assms by (simp add: getEnrolledPaths_def)
qed

end
